theory Spec2Isabelle
  imports Complex_Main
begin

section \<open>Strings and the regular expressions of the scraper\<close>

text \<open>
  The scraper (\<^verbatim>\<open>scrape_products_4.py\<close>) works on Python strings. They are modelled as
  \<^typ>\<open>string\<close>, one \<^typ>\<open>char\<close> per code point, which covers the code points below 256;
  the classes \<^verbatim>\<open>[0-9]\<close> and \<^verbatim>\<open>[A-Za-z]\<close> below are the ones the patterns write out.
  Where a pattern depends on code points above 255 (the class \<^verbatim>\<open>\d\<close>), the function
  is modelled on lists of code points instead.
\<close>

definition LF :: char where
  "LF = CHR 0x0A"

definition is_digit :: "char \<Rightarrow> bool" where
  "is_digit c = (c \<in> set ''0123456789'')"

definition is_alpha :: "char \<Rightarrow> bool" where
  "is_alpha c = (c \<in> set ''ABCDEFGHIJKLMNOPQRSTUVWXYZabcdefghijklmnopqrstuvwxyz'')"

text \<open>The character class \<^verbatim>\<open>[A-Za-z0-9_.-]\<close> of \<^verbatim>\<open>sanitize_filename\<close>.\<close>

definition is_safe :: "char \<Rightarrow> bool" where
  "is_safe c = (is_alpha c \<or> is_digit c \<or> c \<in> set ''_.-'')"

text \<open>
  \<^verbatim>\<open>s.split("?")[0]\<close>: everything before the first question mark.
\<close>

definition before_query :: "string \<Rightarrow> string" where
  "before_query s = takeWhile (\<lambda>c. c \<noteq> CHR ''?'') s"

text \<open>
  \<^verbatim>\<open>os.path.basename\<close> of \<^verbatim>\<open>posixpath\<close>: the part after the last slash
  (\<^verbatim>\<open>p[p.rfind('/') + 1:]\<close>).
\<close>

definition basename :: "string \<Rightarrow> string" where
  "basename p = rev (takeWhile (\<lambda>c. c \<noteq> CHR ''/'') (rev p))"

subsection \<open>\<^verbatim>\<open>sanitize_filename\<close>\<close>

text \<open>
  \<^verbatim>\<open>
  filename = filename.split("?")[0]
  filename = os.path.basename(filename)
  filename = re.sub(r"[^A-Za-z0-9_.-]", "_", filename)
  \<close>
  The substitution replaces each single character outside the class, line feeds included.
\<close>

definition sanitize_filename :: "string \<Rightarrow> string" where
  "sanitize_filename filename =
     map (\<lambda>c. if is_safe c then c else CHR ''_'') (basename (before_query filename))"

subsection \<open>The deduplication key\<close>

text \<open>
  Without the MULTILINE flag \<^verbatim>\<open>$\<close> holds at the end of the string and just before a
  line feed that is the last character.
\<close>

definition at_end :: "string \<Rightarrow> bool" where
  "at_end s = (s = [] \<or> s = [LF])"

text \<open>
  \<^verbatim>\<open>key = re.sub(r"[/?#].*$", "", full_url)\<close>, written twice in
  \<^verbatim>\<open>process_category\<close>. At a slash, question mark or hash the rest \<^verbatim>\<open>.*$\<close> is tried:
  the dot matches every character but a line feed, so \<^verbatim>\<open>.*\<close> runs to the next line feed
  or to the end, and \<^verbatim>\<open>$\<close> must hold there (giving characters back puts \<^verbatim>\<open>$\<close> in
  front of a character that is no line feed, where it fails). The match is deleted and
  the scan goes on behind it.
\<close>

definition is_delim :: "char \<Rightarrow> bool" where
  "is_delim c = (c \<in> set ''/?#'')"

definition to_line_end :: "string \<Rightarrow> string" where
  "to_line_end s = dropWhile (\<lambda>c. c \<noteq> LF) s"

function dedup_key :: "string \<Rightarrow> string" where
  "dedup_key [] = []"
| "dedup_key (c # cs) =
     (if is_delim c \<and> at_end (to_line_end cs) then dedup_key (to_line_end cs)
      else c # dedup_key cs)"
  by pat_completeness auto
termination
  by (relation "measure length") (auto simp: to_line_end_def less_Suc_eq_le length_dropWhile_le)

text \<open>
  Modelled from the spec: the CanonicalKey as the data model words it, "scheme+host+path,
  query and fragment stripped": the URL up to its first question mark or hash.
\<close>

definition spec_canonical_key :: "string \<Rightarrow> string" where
  "spec_canonical_key url = takeWhile (\<lambda>c. c \<noteq> CHR ''?'' \<and> c \<noteq> CHR ''#'') url"

subsection \<open>Other string operations of Python\<close>

text \<open>
  \<^verbatim>\<open>str.strip()\<close>: the white space of Python below code point 256 is
  \<^verbatim>\<open>\t \n \x0b \x0c \r \x1c \x1d \x1e \x1f\<close>, the space, \<^verbatim>\<open>\x85\<close> and \<^verbatim>\<open>\xa0\<close>.
\<close>

definition is_space :: "char \<Rightarrow> bool" where
  "is_space c = (of_char c \<in> {9, 10, 11, 12, 13, 28, 29, 30, 31, 32, 133, 160 :: nat})"

definition strip :: "string \<Rightarrow> string" where
  "strip s = rev (dropWhile is_space (rev (dropWhile is_space s)))"

definition startswith :: "string \<Rightarrow> string \<Rightarrow> bool" where
  "startswith s p = (take (length p) s = p)"

text \<open>\<^verbatim>\<open>os.path.join(a, b)\<close> of \<^verbatim>\<open>posixpath\<close> for two components.\<close>

definition path_join :: "string \<Rightarrow> string \<Rightarrow> string" where
  "path_join a b =
     (if startswith b ''/'' then b
      else if a = [] \<or> last a = CHR ''/'' then a @ b
      else a @ ''/'' @ b)"

text \<open>\<^verbatim>\<open>str(page)\<close> for a page number.\<close>

fun str_nat :: "nat \<Rightarrow> string" where
  "str_nat n =
     (if n < 10 then [char_of (48 + n)]
      else str_nat (n div 10) @ [char_of (48 + n mod 10)])"

declare str_nat.simps [simp del]

subsection \<open>\<^verbatim>\<open>strip_resolution_suffix\<close>\<close>

text \<open>
  The pattern of this function uses \<^verbatim>\<open>\d\<close>, which in a \<^verbatim>\<open>str\<close> pattern (no
  \<^verbatim>\<open>re.ASCII\<close>) holds every decimal digit of Unicode (category Nd), most of them above
  code point 255. So here a Python string is the list of its code points, each a
  natural number, and \<^verbatim>\<open>\d\<close> is a parameter \<open>decimal\<close> of the functions: the table of
  the Unicode database of the Python that runs the scraper.
\<close>

definition code_points :: "string \<Rightarrow> nat list" where
  "code_points s = map of_char s"

text \<open>
  The decimal digits of Unicode 14.0.0 (\<^verbatim>\<open>unicodedata\<close> of Python 3.11), as inclusive
  ranges of code points; the same code points \<^verbatim>\<open>\d\<close> matches there.
\<close>

definition decimal_ranges :: "(nat \<times> nat) list" where
  "decimal_ranges =
     [(48, 57), (1632, 1641), (1776, 1785), (1984, 1993), (2406, 2415), (2534, 2543),
      (2662, 2671), (2790, 2799), (2918, 2927), (3046, 3055), (3174, 3183), (3302, 3311),
      (3430, 3439), (3558, 3567), (3664, 3673), (3792, 3801), (3872, 3881), (4160, 4169),
      (4240, 4249), (6112, 6121), (6160, 6169), (6470, 6479), (6608, 6617), (6784, 6793),
      (6800, 6809), (6992, 7001), (7088, 7097), (7232, 7241), (7248, 7257), (42528, 42537),
      (43216, 43225), (43264, 43273), (43472, 43481), (43504, 43513), (43600, 43609),
      (44016, 44025), (65296, 65305), (66720, 66729), (68912, 68921), (69734, 69743),
      (69872, 69881), (69942, 69951), (70096, 70105), (70384, 70393), (70736, 70745),
      (70864, 70873), (71248, 71257), (71360, 71369), (71472, 71481), (71904, 71913),
      (72016, 72025), (72784, 72793), (73040, 73049), (73120, 73129), (92768, 92777),
      (92864, 92873), (93008, 93017), (120782, 120831), (123200, 123209),
      (123632, 123641), (125264, 125273), (130032, 130041)]"

definition unicode_decimal :: "nat \<Rightarrow> bool" where
  "unicode_decimal c = list_ex (\<lambda>(lo, hi). lo \<le> c \<and> c \<le> hi) decimal_ranges"

text \<open>The class \<^verbatim>\<open>[A-Za-z]\<close> on code points.\<close>

definition ascii_letter :: "nat \<Rightarrow> bool" where
  "ascii_letter c = (65 \<le> c \<and> c \<le> 90 \<or> 97 \<le> c \<and> c \<le> 122)"

text \<open>
  \<^verbatim>\<open>url.partition("?")\<close>: everything before the first question mark (code point 63);
  the separator, empty when there is none; everything after it.
\<close>

definition partition_query :: "nat list \<Rightarrow> nat list \<times> nat list \<times> nat list" where
  "partition_query s =
     (case dropWhile (\<lambda>c. c \<noteq> 63) s of
        [] \<Rightarrow> (s, [], [])
      | q # rest \<Rightarrow> (takeWhile (\<lambda>c. c \<noteq> 63) s, [q], rest))"

text \<open>
  \<^verbatim>\<open>$\<close> without the MULTILINE flag: the end of the string, or just before a line feed
  (code point 10) that is the last character.
\<close>

definition at_dollar :: "nat list \<Rightarrow> bool" where
  "at_dollar s = (s = [] \<or> s = [10])"

text \<open>
  The lookahead \<^verbatim>\<open>(?=\.[A-Za-z]+$)\<close>: a dot (code point 46), one or more ASCII letters,
  and then \<^verbatim>\<open>$\<close>. The letters are matched greedily; giving letters back cannot help,
  since \<^verbatim>\<open>$\<close> does not hold in front of a letter.
\<close>

definition ext_lookahead :: "nat list \<Rightarrow> bool" where
  "ext_lookahead s =
     (case s of
        [] \<Rightarrow> False
      | c # e \<Rightarrow> c = 46 \<and> takeWhile ascii_letter e \<noteq> [] \<and> at_dollar (dropWhile ascii_letter e))"

text \<open>
  \<^verbatim>\<open>\d{2,5}\<close> in front of a character that is no digit: the run is greedy and the
  character required behind it (\<^verbatim>\<open>x\<close>, code point 120, then the dot) is no decimal
  digit, so the only length that can succeed is the whole run of digits, which must be
  2 to 5 long. The result is the rest of the string behind the run.
\<close>

definition digits_2_5 :: "(nat \<Rightarrow> bool) \<Rightarrow> nat list \<Rightarrow> nat list option" where
  "digits_2_5 decimal s =
     (let n = length (takeWhile decimal s)
      in if 2 \<le> n \<and> n \<le> 5 then Some (dropWhile decimal s) else None)"

text \<open>
  \<^verbatim>\<open>(\d{2,5}x\d{2,5})(?=\.[A-Za-z]+$)\<close> tried at the character after an underscore;
  the result is the rest of the string behind the match.
\<close>

definition match_dims :: "(nat \<Rightarrow> bool) \<Rightarrow> nat list \<Rightarrow> nat list option" where
  "match_dims decimal s =
     (case digits_2_5 decimal s of
        None \<Rightarrow> None
      | Some [] \<Rightarrow> None
      | Some (c # r) \<Rightarrow>
          if c \<noteq> 120 then None
          else (case digits_2_5 decimal r of
                  None \<Rightarrow> None
                | Some t \<Rightarrow> if ext_lookahead t then Some t else None))"

text \<open>
  \<^verbatim>\<open>re.sub(r"_(\d{2,5}x\d{2,5})(?=\.[A-Za-z]+$)", "", base)\<close>: scan from the left, delete
  every match (it starts with an underscore, code point 95) and go on behind it.
\<close>

function resub_resolution :: "(nat \<Rightarrow> bool) \<Rightarrow> nat list \<Rightarrow> nat list" where
  "resub_resolution decimal [] = []"
| "resub_resolution decimal (c # cs) =
     (if c = 95 then
        (case match_dims decimal cs of
           Some r \<Rightarrow> resub_resolution decimal r
         | None \<Rightarrow> c # resub_resolution decimal cs)
      else c # resub_resolution decimal cs)"
  by pat_completeness auto
termination
proof (relation "measure (\<lambda>(decimal, s). length s)")
  fix decimal :: "nat \<Rightarrow> bool" and c :: nat and cs r :: "nat list"
  assume "match_dims decimal cs = Some r"
  then obtain t where "digits_2_5 decimal t = Some r" and "length t \<le> length cs"
    by (auto simp: match_dims_def digits_2_5_def Let_def length_dropWhile_le
        split: option.splits list.splits if_splits)
      (metis length_Cons length_dropWhile_le less_Suc_eq_le less_imp_le_nat
        less_le_trans not_less_eq_eq order_refl)
  moreover have "length r \<le> length t"
    using \<open>digits_2_5 decimal t = Some r\<close>
    by (auto simp: digits_2_5_def Let_def length_dropWhile_le split: if_splits)
  ultimately show "((decimal, r), (decimal, c # cs)) \<in> measure (\<lambda>(decimal, s). length s)"
    by simp
qed simp_all

definition strip_resolution_suffix :: "(nat \<Rightarrow> bool) \<Rightarrow> nat list \<Rightarrow> nat list" where
  "strip_resolution_suffix decimal url =
     (case partition_query url of
        (base, sep, query) \<Rightarrow>
          resub_resolution decimal base @ (if sep \<noteq> [] then sep @ query else []))"

section \<open>Pages and the two parsers\<close>

datatype error = Exception

text \<open>
  An exception of Python is the one value of \<^typ>\<open>error\<close>; a computation that may raise
  returns \<open>error + 'a\<close>, with \<open>Inl\<close> for the exception.
\<close>

subsection \<open>JSON values\<close>

text \<open>
  The values \<^verbatim>\<open>json.loads\<close> returns. An object is the list of the items of the
  Python \<^verbatim>\<open>dict\<close>, so \<^verbatim>\<open>d.get(k)\<close> is \<^const>\<open>map_of\<close>, with \<^verbatim>\<open>None\<close> for a missing key.
\<close>

datatype json =
    JNull
  | JBool bool
  | JNum rat
  | JStr string
  | JList "json list"
  | JDict "(string \<times> json) list"

text \<open>Truth value of a Python object, as \<^verbatim>\<open>if x\<close> and \<^verbatim>\<open>x and y\<close> test it.\<close>

fun truthy :: "json \<Rightarrow> bool" where
  "truthy JNull = False"
| "truthy (JBool b) = b"
| "truthy (JNum n) = (n \<noteq> 0)"
| "truthy (JStr s) = (s \<noteq> [])"
| "truthy (JList xs) = (xs \<noteq> [])"
| "truthy (JDict kvs) = (kvs \<noteq> [])"

text \<open>\<^verbatim>\<open>x.get(k) if isinstance(x, dict) else None\<close>.\<close>

fun get_if_dict :: "json \<Rightarrow> string \<Rightarrow> json" where
  "get_if_dict (JDict kvs) k = (case map_of kvs k of None \<Rightarrow> JNull | Some v \<Rightarrow> v)"
| "get_if_dict _ k = JNull"

fun is_dict :: "json \<Rightarrow> bool" where
  "is_dict (JDict kvs) = True"
| "is_dict _ = False"

text \<open>
  \<^verbatim>\<open>for x in v\<close>: a list gives its items, an object its keys, a string its characters;
  \<^verbatim>\<open>None\<close>, a boolean and a number are not iterable and raise \<^verbatim>\<open>TypeError\<close>.
\<close>

fun iterate :: "json \<Rightarrow> error + json list" where
  "iterate (JList xs) = Inr xs"
| "iterate (JDict kvs) = Inr (map (\<lambda>kv. JStr (fst kv)) kvs)"
| "iterate (JStr s) = Inr (map (\<lambda>c. JStr [c]) s)"
| "iterate _ = Inl Exception"

text \<open>
  The body of \<^verbatim>\<open>for variant in variants\<close>: the URLs the variant adds. \<^verbatim>\<open>url.strip()\<close>
  raises \<^verbatim>\<open>AttributeError\<close> when the truthy \<^verbatim>\<open>url\<close> is no string.
\<close>

definition variant_urls :: "json \<Rightarrow> error + string list" where
  "variant_urls variant =
     (let prod = get_if_dict variant ''product'' in
      if truthy prod \<and> is_dict prod then
        (case get_if_dict prod ''url'' of
           JStr url \<Rightarrow> if url \<noteq> [] then Inr [strip url] else Inr []
         | other \<Rightarrow> if truthy other then Inl Exception else Inr [])
      else Inr [])"

text \<open>A loop whose body may raise: the results in order, or the first exception.\<close>

fun collect :: "('a \<Rightarrow> error + string list) \<Rightarrow> 'a list \<Rightarrow> error + string list" where
  "collect f [] = Inr []"
| "collect f (x # xs) =
     (case f x of
        Inl e \<Rightarrow> Inl e
      | Inr us \<Rightarrow> (case collect f xs of Inl e \<Rightarrow> Inl e | Inr vs \<Rightarrow> Inr (us @ vs)))"

text \<open>The body of \<^verbatim>\<open>for ev in events\<close>.\<close>

definition event_urls :: "json \<Rightarrow> error + string list" where
  "event_urls ev =
     (case ev of
        JList [tag, details] \<Rightarrow>
          if tag = JStr ''collection_viewed'' then
            (let collection_info = get_if_dict details ''collection'' in
             if truthy collection_info \<and> is_dict collection_info then
               (case get_if_dict collection_info ''productVariants'' of
                  JList variants \<Rightarrow> collect variant_urls variants
                | other \<Rightarrow> Inr [])
             else Inr [])
          else Inr []
      | other \<Rightarrow> Inr [])"


subsection \<open>Parsed pages\<close>

text \<open>
  An element of a page, as far as the scraper looks at it: the \<^verbatim>\<open>href\<close> of its first
  anchor that has one (\<^verbatim>\<open>elem.find("a", href=True)\<close>).
\<close>

record element =
  anchor_href :: "string option"

text \<open>
  A \<^verbatim>\<open>BeautifulSoup\<close> object is the record of the answers to the queries the scraper
  makes. The queries of \<^verbatim>\<open>parse_collection_page\<close> outside its \<^verbatim>\<open>try\<close> are total; the
  queries of \<^verbatim>\<open>parse_product_page\<close> all stand inside its \<^verbatim>\<open>try\<close> and may raise.

  \<^item> \<open>data_events\<close>: the \<^verbatim>\<open>data-events\<close> attribute of each \<^verbatim>\<open>script\<close> element that has it;
  \<^item> \<open>select\<close>: \<^verbatim>\<open>soup.select(sel)\<close>;
  \<^item> \<open>class_product\<close>: \<^verbatim>\<open>soup.find_all(True, class_=re.compile("product"))\<close>;
  \<^item> \<open>h1_text\<close>: the stripped text of the first \<^verbatim>\<open>h1\<close>, if there is one;
  \<^item> \<open>price_text\<close>: the stripped text of the first element whose class matches
    \<^verbatim>\<open>price\<close>, if there is one;
  \<^item> \<open>select_one_text\<close>: the stripped text of \<^verbatim>\<open>soup.select_one(sel)\<close>, if there is one;
  \<^item> \<open>meta_description\<close>: \<^verbatim>\<open>.get("content", "")\<close> of the description \<^verbatim>\<open>meta\<close> element,
    if there is one;
  \<^item> \<open>og_image\<close>: \<^verbatim>\<open>.get("content")\<close> of the \<^verbatim>\<open>og:image\<close> \<^verbatim>\<open>meta\<close> element, \<open>None\<close> when
    the element or the attribute is missing;
  \<^item> \<open>img_src\<close>: the \<^verbatim>\<open>src\<close> of the first \<^verbatim>\<open>img\<close> that has one.
\<close>

record soup =
  data_events :: "string list"
  select :: "string \<Rightarrow> element list"
  class_product :: "element list"
  h1_text :: "error + string option"
  price_text :: "error + string option"
  select_one_text :: "string \<Rightarrow> error + string option"
  meta_description :: "error + string option"
  og_image :: "error + string option"
  img_src :: "error + string option"

subsection \<open>\<^verbatim>\<open>parse_collection_page\<close>\<close>

text \<open>
  One script of the first strategy: an empty attribute is skipped; \<open>loads\<close> stands for
  \<^verbatim>\<open>json.loads(html.unescape(raw_events))\<close>, which raises on malformed JSON.
\<close>

definition script_urls :: "(string \<Rightarrow> error + json) \<Rightarrow> string \<Rightarrow> error + string list" where
  "script_urls loads raw_events =
     (if raw_events = [] then Inr []
      else (case loads raw_events of
              Inl e \<Rightarrow> Inl e
            | Inr events \<Rightarrow>
                (case iterate events of
                   Inl e \<Rightarrow> Inl e
                 | Inr evs \<Rightarrow> collect event_urls evs)))"

text \<open>The loop over the scripts, left at the first script that gave a URL.\<close>

fun scripts_urls :: "(string \<Rightarrow> error + json) \<Rightarrow> string list \<Rightarrow> error + string list" where
  "scripts_urls loads [] = Inr []"
| "scripts_urls loads (raw_events # rest) =
     (case script_urls loads raw_events of
        Inl e \<Rightarrow> Inl e
      | Inr product_urls \<Rightarrow>
          if product_urls \<noteq> [] then Inr product_urls else scripts_urls loads rest)"

definition parse_product_card :: "element \<Rightarrow> string option" where
  "parse_product_card elem =
     (case anchor_href elem of None \<Rightarrow> None | Some href \<Rightarrow> Some (strip href))"

definition selectors :: "string list" where
  "selectors = [''div.grid__item'', ''div.product-card'', ''li.grid__item'', ''li.product-card'']"

text \<open>\<^verbatim>\<open>for sel in selectors: cards = soup.select(sel); if cards: break\<close>.\<close>

fun first_cards :: "(string \<Rightarrow> element list) \<Rightarrow> string list \<Rightarrow> element list" where
  "first_cards sel [] = []"
| "first_cards sel (s # ss) = (if sel s \<noteq> [] then sel s else first_cards sel ss)"

text \<open>The last resort: anchors in the elements whose class contains \<^verbatim>\<open>product\<close>.\<close>

definition generic_urls :: "element list \<Rightarrow> string list" where
  "generic_urls elems =
     concat (map (\<lambda>elem. case anchor_href elem of
                            None \<Rightarrow> []
                          | Some href \<Rightarrow> if href \<noteq> [] then [strip href] else []) elems)"

definition card_urls :: "element list \<Rightarrow> string list" where
  "card_urls cards =
     concat (map (\<lambda>elem. case parse_product_card elem of
                            None \<Rightarrow> []
                          | Some url \<Rightarrow> if url \<noteq> [] then [url] else []) cards)"

definition markup_urls :: "soup \<Rightarrow> string list" where
  "markup_urls page =
     (let cards = first_cards (select page) selectors
      in if cards = [] then generic_urls (class_product page) else card_urls cards)"

text \<open>
  The part of \<^verbatim>\<open>parse_collection_page\<close> behind the fetch: the \<^verbatim>\<open>try\<close> around the first
  strategy turns every exception into an empty list, and the markup is read only when
  the list is empty.
\<close>

definition collection_urls :: "(string \<Rightarrow> error + json) \<Rightarrow> soup \<Rightarrow> string list" where
  "collection_urls loads page =
     (let product_urls = (case scripts_urls loads (data_events page) of
                            Inl e \<Rightarrow> []
                          | Inr us \<Rightarrow> us)
      in if product_urls = [] then markup_urls page else product_urls)"


subsection \<open>\<^verbatim>\<open>parse_product_page\<close>\<close>

text \<open>
  The dataclass \<^verbatim>\<open>Product\<close>, with \<open>pid\<close> for its field \<^verbatim>\<open>id\<close>. A price is kept as the
  literal that \<^verbatim>\<open>float\<close> accepted.
\<close>

record Product =
  pid :: string
  name :: string
  price :: "string option"
  description :: string
  image :: string

definition is_alnum :: "char \<Rightarrow> bool" where
  "is_alnum c = (is_alpha c \<or> is_digit c)"

text \<open>
  \<^verbatim>\<open>re.search(r"([A-Za-z0-9]+/[A-Za-z0-9]+)", title)\<close>: the leftmost match. From a start
  the first run is greedy and must be followed by a slash and one more character of the
  class; shorter first runs are followed by a character of the class and fail.
\<close>

fun search_id :: "string \<Rightarrow> string option" where
  "search_id [] = None"
| "search_id (c # cs) =
     (let a = takeWhile is_alnum (c # cs); r = dropWhile is_alnum (c # cs)
      in if a \<noteq> [] \<and> r \<noteq> [] \<and> hd r = CHR ''/'' \<and> takeWhile is_alnum (tl r) \<noteq> []
         then Some (a @ CHR ''/'' # takeWhile is_alnum (tl r))
         else search_id cs)"

text \<open>
  \<^verbatim>\<open>re.sub(r"[^0-9.]+", "", price_text)\<close> keeps the digits and dots. \<^verbatim>\<open>float\<close> accepts
  such a string when it has at most one dot and at least one digit, and raises
  \<^verbatim>\<open>ValueError\<close> otherwise, which the inner \<^verbatim>\<open>try\<close> turns into \<^verbatim>\<open>None\<close>.
\<close>

definition clean_price :: "string \<Rightarrow> string" where
  "clean_price text = filter (\<lambda>c. is_digit c \<or> c = CHR ''.'') text"

definition float_ok :: "string \<Rightarrow> bool" where
  "float_ok cleaned =
     (length (filter (\<lambda>c. c = CHR ''.'') cleaned) \<le> 1 \<and> filter is_digit cleaned \<noteq> [])"

definition parse_price :: "string option \<Rightarrow> string option" where
  "parse_price price_elem =
     (case price_elem of
        None \<Rightarrow> None
      | Some text \<Rightarrow>
          (let cleaned = clean_price text
           in if cleaned \<noteq> [] \<and> float_ok cleaned then Some cleaned else None))"

definition desc_selectors :: "string list" where
  "desc_selectors = [''div.product-description'', ''div#ProductDescription'',
     ''div#product_description'',
     ''div[itemprop='' @ [CHR 0x27] @ ''description'' @ [CHR 0x27] @ '']'']"

text \<open>
  The loop over \<^verbatim>\<open>desc_selectors\<close>: the text of the first selector that finds an
  element (the loop is left there, also when the text is empty); a query may raise.
\<close>

fun first_desc :: "(string \<Rightarrow> error + string option) \<Rightarrow> string list \<Rightarrow> error + string" where
  "first_desc sel_text [] = Inr []"
| "first_desc sel_text (sel # sels) =
     (case sel_text sel of
        Inl e \<Rightarrow> Inl e
      | Inr (Some text) \<Rightarrow> Inr text
      | Inr None \<Rightarrow> first_desc sel_text sels)"

text \<open>
  The functions on code points, applied to a string of this model. The second is
  \<^verbatim>\<open>re.sub(r"_\d{2,5}x\d{2,5}(?=\.[A-Za-z]+$)", "", sanitize_filename(high_res_url))\<close>,
  with the pattern of \<^verbatim>\<open>strip_resolution_suffix\<close> without its group.
\<close>

definition high_res :: "string \<Rightarrow> string" where
  "high_res image_url =
     map char_of (strip_resolution_suffix unicode_decimal (code_points image_url))"

definition image_filename :: "string \<Rightarrow> string" where
  "image_filename high_res_url =
     map char_of (resub_resolution unicode_decimal (code_points (sanitize_filename high_res_url)))"

text \<open>The description: the first selector's text, else the stripped meta description.\<close>

definition find_desc :: "soup \<Rightarrow> error + string" where
  "find_desc page =
     (case first_desc (select_one_text page) desc_selectors of
        Inl e \<Rightarrow> Inl e
      | Inr desc \<Rightarrow>
          if desc = [] then
            (case meta_description page of
               Inl e \<Rightarrow> Inl e
             | Inr None \<Rightarrow> Inr desc
             | Inr (Some content) \<Rightarrow> Inr (strip content))
          else Inr desc)"

text \<open>
  The image reference: the stripped \<^verbatim>\<open>og:image\<close> content when that content is not
  empty, else the stripped \<^verbatim>\<open>src\<close> of the first \<^verbatim>\<open>img\<close> that has one, else empty.
\<close>

definition find_image_url :: "soup \<Rightarrow> error + string" where
  "find_image_url page =
     (case og_image page of
        Inl e \<Rightarrow> Inl e
      | Inr og \<Rightarrow>
          (case og of
             Some (c # cs) \<Rightarrow> Inr (strip (c # cs))
           | other \<Rightarrow>
               (case img_src page of
                  Inl e \<Rightarrow> Inl e
                | Inr None \<Rightarrow> Inr []
                | Inr (Some src) \<Rightarrow> Inr (strip src))))"

text \<open>
  The body of the \<^verbatim>\<open>try\<close> of \<^verbatim>\<open>parse_product_page\<close>, in the order of its statements:
  \<open>Inl\<close> when a statement raises, \<open>Inr None\<close> for \<^verbatim>\<open>return None\<close>.
\<close>

definition extract_product :: "soup \<Rightarrow> error + (Product \<times> string) option" where
  "extract_product page =
     (case h1_text page of
        Inl e \<Rightarrow> Inl e
      | Inr title_elem \<Rightarrow>
     (case price_text page of
        Inl e \<Rightarrow> Inl e
      | Inr price_elem \<Rightarrow>
     (case find_desc page of
        Inl e \<Rightarrow> Inl e
      | Inr desc \<Rightarrow>
     (case find_image_url page of
        Inl e \<Rightarrow> Inl e
      | Inr image_url \<Rightarrow>
          if image_url = [] then Inr None
          else
            (let title = (case title_elem of None \<Rightarrow> [] | Some t \<Rightarrow> t);
                 product_id = (case search_id title of None \<Rightarrow> title | Some m \<Rightarrow> m);
                 high_res_url = high_res image_url
             in Inr (Some (\<lparr>pid = product_id, name = title, price = parse_price price_elem,
                             description = desc, image = image_filename high_res_url\<rparr>,
                           high_res_url)))))))"

text \<open>\<^verbatim>\<open>except Exception: return None\<close> around that body.\<close>

definition product_of_page :: "soup \<Rightarrow> (Product \<times> string) option" where
  "product_of_page page =
     (case extract_product page of Inl e \<Rightarrow> None | Inr result \<Rightarrow> result)"

section \<open>Fetching and the crawl of a category\<close>

text \<open>
  What \<^verbatim>\<open>session.get\<close> returns, as far as the scraper reads it: the status code and
  the page \<^verbatim>\<open>BeautifulSoup(response.text, "html.parser")\<close> makes of the body, which
  may raise.
\<close>

record response =
  status_code :: int
  html :: "error + soup"

text \<open>
  The world around the scraper. The answer of the site to a request may depend on the
  moment, counted in requests sent before.

  \<^item> \<open>session_get n url\<close>: \<^verbatim>\<open>session.get(url, ...)\<close> as request number \<open>n\<close>; it may raise;
  \<^item> \<open>urljoin\<close>: \<^verbatim>\<open>requests.compat.urljoin\<close>;
  \<^item> \<open>loads\<close>: \<^verbatim>\<open>json.loads(html.unescape(s))\<close>;
  \<^item> \<open>path_exists\<close>: \<^verbatim>\<open>os.path.exists\<close> before the crawl;
  \<^item> \<open>write_ok\<close>: whether \<^verbatim>\<open>open(dest_path, "wb")\<close> and the write succeed.
\<close>

record site =
  session_get :: "nat \<Rightarrow> string \<Rightarrow> error + response"
  urljoin :: "string \<Rightarrow> string \<Rightarrow> string"
  loads :: "string \<Rightarrow> error + json"
  path_exists :: "string \<Rightarrow> bool"
  write_ok :: "string \<Rightarrow> bool"

text \<open>
  The state of \<^verbatim>\<open>process_category\<close>: the dictionary \<^verbatim>\<open>collected\<close>, and what the crawl
  has done to the world: the requests sent, in order, each with the function that sent
  it, and the files written.
\<close>

datatype sender = Listing | Detail | Picture

record crawl =
  collected :: "string \<rightharpoonup> Product"
  requests :: "(sender \<times> string) list"
  written :: "string list"

definition BASE_URL :: string where
  "BASE_URL = ''https://www.jkcabinetry.com''"

definition STYLE_CODES :: "string list" where
  "STYLE_CODES = [''s8'', ''s1'', ''s2'', ''s5'', ''k3'', ''h9'', ''h8'', ''h3'', ''a7'',
     ''c066'', ''m01'', ''k10'', ''k8'', ''j5'']"

definition max_pages :: nat where
  "max_pages = 20"

text \<open>\<^verbatim>\<open>session.get\<close> with the request recorded.\<close>

definition send :: "site \<Rightarrow> crawl \<Rightarrow> sender \<Rightarrow> string \<Rightarrow> (error + response) \<times> crawl" where
  "send world st who url =
     (session_get world (length (requests st)) url,
      st\<lparr>requests := requests st @ [(who, url)]\<rparr>)"

text \<open>
  \<^verbatim>\<open>get_soup\<close>: \<^verbatim>\<open>None\<close> when the request raises, when the status is not 200 and when
  the parser raises.
\<close>

definition get_soup :: "site \<Rightarrow> crawl \<Rightarrow> sender \<Rightarrow> string \<Rightarrow> soup option \<times> crawl" where
  "get_soup world st who url =
     (case send world st who url of
        (Inl e, st') \<Rightarrow> (None, st')
      | (Inr resp, st') \<Rightarrow>
          if status_code resp \<noteq> 200 then (None, st')
          else (case html resp of Inl e \<Rightarrow> (None, st') | Inr page \<Rightarrow> (Some page, st')))"

definition parse_collection_page :: "site \<Rightarrow> crawl \<Rightarrow> string \<Rightarrow> string list \<times> crawl" where
  "parse_collection_page world st collection_url =
     (case get_soup world st Listing collection_url of
        (None, st') \<Rightarrow> ([], st')
      | (Some page, st') \<Rightarrow> (collection_urls (loads world) page, st'))"

text \<open>\<^verbatim>\<open>link if link.startswith("http") else requests.compat.urljoin(BASE_URL, link)\<close>.\<close>

definition absolute :: "site \<Rightarrow> string \<Rightarrow> string" where
  "absolute world link = (if startswith link ''http'' then link else urljoin world BASE_URL link)"

definition parse_product_page ::
  "site \<Rightarrow> crawl \<Rightarrow> string \<Rightarrow> (Product \<times> string) option \<times> crawl" where
  "parse_product_page world st product_url =
     (case get_soup world st Detail (absolute world product_url) of
        (None, st') \<Rightarrow> (None, st')
      | (Some page, st') \<Rightarrow> (product_of_page page, st'))"

text \<open>
  \<^verbatim>\<open>download_image\<close>: \<^verbatim>\<open>raise_for_status\<close> raises for a status from 400 to 599; every
  exception gives \<^verbatim>\<open>False\<close>.
\<close>

definition download_image :: "site \<Rightarrow> crawl \<Rightarrow> string \<Rightarrow> string \<Rightarrow> bool \<times> crawl" where
  "download_image world st url dest_path =
     (case send world st Picture url of
        (Inl e, st') \<Rightarrow> (False, st')
      | (Inr resp, st') \<Rightarrow>
          if 400 \<le> status_code resp \<and> status_code resp < 600 then (False, st')
          else if write_ok world dest_path
               then (True, st'\<lparr>written := written st' @ [dest_path]\<rparr>)
               else (False, st'))"

definition exists_now :: "site \<Rightarrow> crawl \<Rightarrow> string \<Rightarrow> bool" where
  "exists_now world st path = (path_exists world path \<or> path \<in> set (written st))"

text \<open>
  The body of \<^verbatim>\<open>for full_url in new_links\<close>. The result of \<^verbatim>\<open>download_image\<close> is not
  looked at.
\<close>

definition process_link :: "site \<Rightarrow> string \<Rightarrow> crawl \<Rightarrow> string \<Rightarrow> crawl" where
  "process_link world category_folder st full_url =
     (let key = dedup_key full_url
      in if key \<in> dom (collected st) then st
         else (case parse_product_page world st full_url of
                 (None, st1) \<Rightarrow> st1
               | (Some (product, img_url), st1) \<Rightarrow>
                   (let dest_img_path = path_join category_folder (image product);
                        st2 = (if image product \<noteq> [] \<and> \<not> exists_now world st1 dest_img_path
                               then snd (download_image world st1 img_url dest_img_path)
                               else st1)
                    in st2\<lparr>collected := (collected st2)(key \<mapsto> product)\<rparr>)))"

definition process_links :: "site \<Rightarrow> string \<Rightarrow> crawl \<Rightarrow> string list \<Rightarrow> crawl" where
  "process_links world category_folder st new_links =
     foldl (process_link world category_folder) st new_links"

text \<open>
  The loop \<^verbatim>\<open>for link in product_links\<close> that fills \<^verbatim>\<open>new_links\<close> and \<^verbatim>\<open>seen_links\<close>.
\<close>

fun filter_new :: "site \<Rightarrow> string set \<Rightarrow> string list \<Rightarrow> string list \<times> string set" where
  "filter_new world seen_links [] = ([], seen_links)"
| "filter_new world seen_links (link # links) =
     (let full_url = absolute world link; key = dedup_key full_url
      in if key \<notin> seen_links
         then (case filter_new world (insert key seen_links) links of
                 (new_links, seen') \<Rightarrow> (full_url # new_links, seen'))
         else filter_new world seen_links links)"

definition page_url :: "string \<Rightarrow> nat \<Rightarrow> string" where
  "page_url base_collection page =
     (if page = 1 then base_collection else base_collection @ ''?page='' @ str_nat page)"

text \<open>
  The loop \<^verbatim>\<open>while page <= max_pages\<close> of one style, from the given page, set of seen
  keys and state; it returns the set of seen keys too.
\<close>

function paginate ::
  "site \<Rightarrow> string \<Rightarrow> string \<Rightarrow> string set \<Rightarrow> nat \<Rightarrow> crawl \<Rightarrow> string set \<times> crawl" where
  "paginate world category_folder base_collection seen_links page st =
     (if page \<le> max_pages then
        (case parse_collection_page world st (page_url base_collection page) of
           (product_links, st1) \<Rightarrow>
             if product_links = [] then (seen_links, st1)
             else (case filter_new world seen_links product_links of
                     (new_links, seen') \<Rightarrow>
                       if new_links = [] then (seen', st1)
                       else paginate world category_folder base_collection seen' (page + 1)
                              (process_links world category_folder st1 new_links)))
      else (seen_links, st))"
  by pat_completeness auto
termination
  by (relation "measure (\<lambda>(world, category_folder, base_collection, seen_links, page, st).
        max_pages + 1 - page)") auto

declare paginate.simps [simp del]

definition process_style :: "site \<Rightarrow> string \<Rightarrow> string \<Rightarrow> crawl \<Rightarrow> string \<Rightarrow> crawl" where
  "process_style world category_folder slug st style =
     snd (paginate world category_folder (BASE_URL @ ''/collections/'' @ style @ ''-'' @ slug)
            {} 1 st)"

text \<open>
  \<^verbatim>\<open>process_category\<close> from the making of the folder, taken to succeed, up to the
  writing of \<^verbatim>\<open>products.json\<close>: the state after the loop over the styles, from an empty
  dictionary.
\<close>

definition process_category :: "site \<Rightarrow> string \<Rightarrow> string \<Rightarrow> crawl" where
  "process_category world cid slug =
     foldl (process_style world (path_join ''output'' cid) slug)
       \<lparr>collected = Map.empty, requests = [], written = []\<rparr> STYLE_CODES"

text \<open>The number of listing pages a crawl has requested so far.\<close>

definition listings :: "crawl \<Rightarrow> nat" where
  "listings st = length (filter (\<lambda>r. fst r = Listing) (requests st))"

section \<open>Example sites\<close>

text \<open>A page on which every query finds nothing.\<close>

definition blank_page :: soup where
  "blank_page =
     \<lparr>data_events = [], select = (\<lambda>sel. []), class_product = [],
      h1_text = Inr None, price_text = Inr None, select_one_text = (\<lambda>sel. Inr None),
      meta_description = Inr None, og_image = Inr None, img_src = Inr None\<rparr>"

definition ok :: "soup \<Rightarrow> error + response" where
  "ok page = Inr \<lparr>status_code = 200, html = Inr page\<rparr>"

definition not_found :: "error + response" where
  "not_found = Inr \<lparr>status_code = 404, html = Inr blank_page\<rparr>"

text \<open>A listing page with one \<^verbatim>\<open>div.grid__item\<close> card per link.\<close>

definition listing_page :: "string list \<Rightarrow> soup" where
  "listing_page links =
     blank_page\<lparr>select := (\<lambda>sel. if sel = ''div.grid__item''
                              then map (\<lambda>l. \<lparr>anchor_href = Some l\<rparr>) links else [])\<rparr>"

text \<open>A product page with a title and an \<^verbatim>\<open>og:image\<close>.\<close>

definition product_page :: "string \<Rightarrow> string \<Rightarrow> soup" where
  "product_page title img = blank_page\<lparr>h1_text := Inr (Some title), og_image := Inr (Some img)\<rparr>"



text \<open>
  A shop whose listing of style \<^verbatim>\<open>s8\<close> shows the same two relative links on its first
  and on its second page.
\<close>

definition same_page :: site where
  "same_page =
     \<lparr>session_get = (\<lambda>n url.
        if url = ''https://www.jkcabinetry.com/collections/s8-filler''
           \<or> url = ''https://www.jkcabinetry.com/collections/s8-filler?page=2''
        then ok (listing_page [''/products/s8-f3'', ''/products/s8-f6''])
        else if url = ''https://www.jkcabinetry.com/products/s8-f3''
        then ok (product_page ''S8/F3'' ''https://cdn.shop/f3_352x192.jpg?v=1'')
        else if url = ''https://www.jkcabinetry.com/products/s8-f6''
        then ok (product_page ''S8/F6'' ''https://cdn.shop/f6.jpg'')
        else not_found),
      urljoin = (\<lambda>base link. base @ link),
      loads = (\<lambda>s. Inl Exception),
      path_exists = (\<lambda>path. False),
      write_ok = (\<lambda>path. True)\<rparr>"

text \<open>The products of the two example pages.\<close>

definition product_f3 :: Product where
  "product_f3 = \<lparr>pid = ''S8/F3'', name = ''S8/F3'', price = None, description = [],
     image = ''f3.jpg''\<rparr>"

definition product_f6 :: Product where
  "product_f6 = \<lparr>pid = ''S8/F6'', name = ''S8/F6'', price = None, description = [],
     image = ''f6.jpg''\<rparr>"

section \<open>Properties\<close>

subsection \<open>The deduplication key against the CanonicalKey of the data model\<close>

text \<open>
  Claim C1: the key computed from a link's absolute URL is the URL's scheme, host and path,
  with the query string and the fragment stripped. The source's comment says the same
  (\<^verbatim>\<open># Remove query params and fragments for deduplication\<close>), but its character class
  \<^verbatim>\<open>[/?#]\<close> also holds the slash, so the substitution already cuts at the first slash
  of \<^verbatim>\<open>https://\<close>: at the product URL below the code's key is \<^verbatim>\<open>https:\<close>, where the
  CanonicalKey of the data model is the URL without its query string.
\<close>

theorem dedup_key_drops_host_and_path:
  "dedup_key ''https://www.jkcabinetry.com/products/s8-sb30?variant=1'' = ''https:''
   \<and> spec_canonical_key ''https://www.jkcabinetry.com/products/s8-sb30?variant=1''
       = ''https://www.jkcabinetry.com/products/s8-sb30''"
  by (simp add: is_delim_def to_line_end_def at_end_def LF_def spec_canonical_key_def)

subsection \<open>\<^verbatim>\<open>sanitize_filename\<close> is a projection onto safe names\<close>

lemma is_safe_not_query: "is_safe c \<Longrightarrow> c \<noteq> CHR ''?'' \<and> c \<noteq> CHR ''/''"
  by (auto simp: is_safe_def is_alpha_def is_digit_def)

lemma safe_underscore: "is_safe (CHR ''_'')"
  by (simp add: is_safe_def)

lemma sanitize_filename_safe: "\<forall>c \<in> set (sanitize_filename x). is_safe c"
  by (auto simp: sanitize_filename_def safe_underscore)

lemma takeWhile_prefix_stop:
  assumes "\<forall>x \<in> set xs. P x" and "ys = [] \<or> \<not> P (hd ys)"
  shows "takeWhile P (xs @ ys) = xs"
proof (cases ys)
  case Nil
  with assms(1) show ?thesis by (simp add: takeWhile_eq_all_conv [THEN iffD2])
next
  case (Cons y zs)
  with assms show ?thesis by (simp add: takeWhile_append2)
qed

lemma before_query_append:
  assumes "CHR ''?'' \<notin> set a" and "q = [] \<or> hd q = CHR ''?''"
  shows "before_query (a @ q) = a"
  unfolding before_query_def
proof (rule takeWhile_prefix_stop)
  show "\<forall>x \<in> set a. x \<noteq> CHR ''?''" using assms(1) by auto
  show "q = [] \<or> \<not> hd q \<noteq> CHR ''?''" using assms(2) by simp
qed

lemma basename_append:
  assumes "CHR ''/'' \<notin> set n" and "d = [] \<or> last d = CHR ''/''"
  shows "basename (d @ n) = n"
proof -
  have "takeWhile (\<lambda>c. c \<noteq> CHR ''/'') (rev n @ rev d) = rev n"
  proof (rule takeWhile_prefix_stop)
    show "\<forall>x \<in> set (rev n). x \<noteq> CHR ''/''" using assms(1) by auto
    show "rev d = [] \<or> \<not> hd (rev d) \<noteq> CHR ''/''"
      using assms(2) by (cases "d = []") (simp_all add: hd_rev)
  qed
  then show ?thesis by (simp add: basename_def)
qed

lemma sanitize_filename_fixed:
  assumes "\<forall>c \<in> set y. is_safe c"
  shows "sanitize_filename y = y"
proof -
  have "CHR ''?'' \<notin> set y" and "CHR ''/'' \<notin> set y"
    using assms is_safe_not_query by blast+
  then have q: "before_query (y @ []) = y" and b: "basename ([] @ y) = y"
    by (intro before_query_append basename_append; simp)+
  have "map (\<lambda>c. if is_safe c then c else CHR ''_'') y = y"
    using assms by (induction y) auto
  with q b show ?thesis by (simp add: sanitize_filename_def)
qed


text \<open>
  Claim C6: \<^verbatim>\<open>sanitize_filename\<close> strips the query, discards the directories, replaces
  every character outside \<^verbatim>\<open>[A-Za-z0-9_.-]\<close> by an underscore, and is idempotent. For
  an input made of directories \<open>d\<close> (empty or ending in a slash), a name \<open>n\<close> without slash
  or question mark and a query \<open>q\<close> (empty or starting with a question mark) the result
  is \<open>n\<close> with each unsafe character replaced; every result is made of safe characters
  only; and a second application changes nothing.
\<close>

theorem sanitize_filename_spec:
  "(\<forall>c \<in> set (sanitize_filename x). is_safe c)
   \<and> (CHR ''?'' \<notin> set d \<and> CHR ''?'' \<notin> set n \<and> CHR ''/'' \<notin> set n
        \<and> (d = [] \<or> last d = CHR ''/'') \<and> (q = [] \<or> hd q = CHR ''?'')
      \<longrightarrow> sanitize_filename (d @ n @ q) = map (\<lambda>c. if is_safe c then c else CHR ''_'') n)
   \<and> sanitize_filename (sanitize_filename x) = sanitize_filename x"
proof (intro conjI impI)
  show "\<forall>c \<in> set (sanitize_filename x). is_safe c"
    by (rule sanitize_filename_safe)
  show "sanitize_filename (sanitize_filename x) = sanitize_filename x"
    by (rule sanitize_filename_fixed [OF sanitize_filename_safe])
next
  assume a: "CHR ''?'' \<notin> set d \<and> CHR ''?'' \<notin> set n \<and> CHR ''/'' \<notin> set n
        \<and> (d = [] \<or> last d = CHR ''/'') \<and> (q = [] \<or> hd q = CHR ''?'')"
  then have "CHR ''?'' \<notin> set (d @ n)" by simp
  with a have "before_query ((d @ n) @ q) = d @ n"
    by (intro before_query_append) blast+
  moreover from a have "basename (d @ n) = n"
    by (intro basename_append) blast+
  ultimately show "sanitize_filename (d @ n @ q) = map (\<lambda>c. if is_safe c then c else CHR ''_'') n"
    by (simp add: sanitize_filename_def)
qed

theorem sanitize_filename_spec_witness:
  "sanitize_filename ''https://cdn.shop/files/S8 SB30(1).jpg?v=17&w=2'' = ''S8_SB30_1_.jpg''
   \<and> sanitize_filename (sanitize_filename ''https://cdn.shop/files/S8 SB30(1).jpg?v=17&w=2'')
       = ''S8_SB30_1_.jpg''"
proof -
  let ?x = "''https://cdn.shop/files/S8 SB30(1).jpg?v=17&w=2''"
  note spec = sanitize_filename_spec [of ?x "''https://cdn.shop/files/''" "''S8 SB30(1).jpg''"
      "''?v=17&w=2''"]
  have a: "sanitize_filename ?x = ''S8_SB30_1_.jpg''"
    using spec [THEN conjunct2, THEN conjunct1]
    by (simp add: is_safe_def is_alpha_def is_digit_def)
  have "sanitize_filename (sanitize_filename ?x) = sanitize_filename ?x"
    using spec [THEN conjunct2, THEN conjunct2] .
  with a show ?thesis by simp
qed

subsection \<open>\<^verbatim>\<open>strip_resolution_suffix\<close> removes the trailing marker only\<close>

lemma dropWhile_prefix_stop:
  assumes "\<forall>x \<in> set xs. P x" and "ys = [] \<or> \<not> P (hd ys)"
  shows "dropWhile P (xs @ ys) = ys"
proof (cases ys)
  case Nil
  with assms(1) show ?thesis by simp
next
  case (Cons y zs)
  with assms show ?thesis by (simp add: dropWhile_append2)
qed

lemma digits_2_5_append:
  assumes "\<forall>c \<in> set W. decimal c" and "2 \<le> length W" and "length W \<le> 5"
    and "r = [] \<or> \<not> decimal (hd r)"
  shows "digits_2_5 decimal (W @ r) = Some r"
proof -
  have "takeWhile decimal (W @ r) = W" and "dropWhile decimal (W @ r) = r"
    using assms(1,4) by (rule takeWhile_prefix_stop dropWhile_prefix_stop)+
  with assms(2,3) show ?thesis
    unfolding digits_2_5_def Let_def by simp
qed

lemma digits_2_5_SomeD:
  assumes "digits_2_5 decimal s = Some r"
  shows "\<exists>W. s = W @ r \<and> (\<forall>c \<in> set W. decimal c) \<and> 2 \<le> length W \<and> length W \<le> 5"
proof -
  let ?W = "takeWhile decimal s"
  from assms have "r = dropWhile decimal s" and "2 \<le> length ?W" and "length ?W \<le> 5"
    by (auto simp: digits_2_5_def Let_def split: if_splits)
  moreover have "s = ?W @ dropWhile decimal s" by simp
  moreover have "\<forall>c \<in> set ?W. decimal c" by (auto dest: set_takeWhileD)
  ultimately show ?thesis by metis
qed

lemma ext_lookahead_append:
  assumes "e \<noteq> []" and "\<forall>c \<in> set e. ascii_letter c" and "at_dollar nl"
  shows "ext_lookahead (46 # e @ nl)"
proof -
  have nl: "nl = [] \<or> \<not> ascii_letter (hd nl)"
    using assms(3) by (auto simp: at_dollar_def ascii_letter_def)
  show ?thesis
    using assms(1,3)
    unfolding ext_lookahead_def list.case takeWhile_prefix_stop [OF assms(2) nl]
        dropWhile_prefix_stop [OF assms(2) nl]
    by simp
qed

lemma ext_lookaheadD:
  assumes "ext_lookahead t"
  shows "\<exists>e nl. t = 46 # e @ nl \<and> e \<noteq> [] \<and> (\<forall>c \<in> set e. ascii_letter c) \<and> at_dollar nl"
proof (cases t)
  case Nil
  with assms show ?thesis by (simp add: ext_lookahead_def)
next
  case (Cons c u)
  let ?e = "takeWhile ascii_letter u"
  from assms Cons have "c = 46" and "?e \<noteq> []" and "at_dollar (dropWhile ascii_letter u)"
    by (simp_all add: ext_lookahead_def)
  moreover have "u = ?e @ dropWhile ascii_letter u" by simp
  moreover have "\<forall>c \<in> set ?e. ascii_letter c" by (auto dest: set_takeWhileD)
  ultimately show ?thesis using Cons by metis
qed

lemma match_dims_append:
  assumes "\<forall>c \<in> set W. decimal c" and "2 \<le> length W" and "length W \<le> 5"
    and "\<forall>c \<in> set H. decimal c" and "2 \<le> length H" and "length H \<le> 5"
    and "e \<noteq> []" and "\<forall>c \<in> set e. ascii_letter c" and "at_dollar nl"
    and dec: "\<forall>c<128. decimal c = (48 \<le> c \<and> c \<le> 57)"
  shows "match_dims decimal (W @ 120 # H @ 46 # e @ nl) = Some (46 # e @ nl)"
proof -
  have "digits_2_5 decimal (W @ 120 # H @ 46 # e @ nl) = Some (120 # H @ 46 # e @ nl)"
    using assms(1-3) dec by (intro digits_2_5_append) simp_all
  moreover have "digits_2_5 decimal (H @ 46 # e @ nl) = Some (46 # e @ nl)"
    using assms(4-6) dec by (intro digits_2_5_append) simp_all
  moreover have "ext_lookahead (46 # e @ nl)"
    using assms(7-9) by (rule ext_lookahead_append)
  ultimately show ?thesis by (simp add: match_dims_def)
qed

lemma match_dims_SomeD:
  assumes "match_dims decimal s = Some r"
  shows "\<exists>W H e nl. s = W @ 120 # H @ r \<and> r = 46 # e @ nl
           \<and> (\<forall>c \<in> set W. decimal c) \<and> 2 \<le> length W \<and> length W \<le> 5
           \<and> (\<forall>c \<in> set H. decimal c) \<and> 2 \<le> length H \<and> length H \<le> 5
           \<and> e \<noteq> [] \<and> (\<forall>c \<in> set e. ascii_letter c) \<and> at_dollar nl"
proof -
  from assms obtain u where 1: "digits_2_5 decimal s = Some (120 # u)"
    and 2: "digits_2_5 decimal u = Some r" and 3: "ext_lookahead r"
    by (auto simp: match_dims_def split: option.splits list.splits if_splits)
  from digits_2_5_SomeD [OF 1] obtain W where W: "s = W @ 120 # u"
    "\<forall>c \<in> set W. decimal c" "2 \<le> length W" "length W \<le> 5" by blast
  from digits_2_5_SomeD [OF 2] obtain H where H: "u = H @ r"
    "\<forall>c \<in> set H. decimal c" "2 \<le> length H" "length H \<le> 5" by blast
  from ext_lookaheadD [OF 3] obtain e nl where e: "r = 46 # e @ nl" "e \<noteq> []"
    "\<forall>c \<in> set e. ascii_letter c" "at_dollar nl" by blast
  from W H e show ?thesis by blast
qed

lemma match_dims_no_underscore:
  assumes "match_dims decimal s = Some r" and dec: "\<forall>c<128. decimal c = (48 \<le> c \<and> c \<le> 57)"
  shows "95 \<notin> set s"
proof -
  from match_dims_SomeD [OF assms(1)] obtain W H e nl where
    s: "s = W @ 120 # H @ 46 # e @ nl"
    and d: "\<forall>c \<in> set W. decimal c" "\<forall>c \<in> set H. decimal c"
    and a: "\<forall>c \<in> set e. ascii_letter c" and n: "at_dollar nl"
    by blast
  have "\<not> decimal 95" "\<not> ascii_letter 95"
    using dec by (simp_all add: ascii_letter_def)
  with d a have "95 \<notin> set W" "95 \<notin> set H" "95 \<notin> set e" by blast+
  moreover have "95 \<notin> set nl" using n by (auto simp: at_dollar_def)
  ultimately show ?thesis by (simp add: s)
qed

lemma resub_resolution_plain: "95 \<notin> set s \<Longrightarrow> resub_resolution decimal s = s"
  by (induction s) auto

lemma resub_resolution_prefix:
  assumes dec: "\<forall>c<128. decimal c = (48 \<le> c \<and> c \<le> 57)"
  shows "resub_resolution decimal (p @ 95 # t) = p @ resub_resolution decimal (95 # t)"
proof (induction p)
  case Nil
  show ?case by simp
next
  case (Cons c p)
  have "match_dims decimal (p @ 95 # t) = None"
  proof (cases "match_dims decimal (p @ 95 # t)")
    case (Some r)
    from match_dims_no_underscore [OF Some dec] show ?thesis by simp
  qed simp
  with Cons show ?case by simp
qed

lemma resub_resolution_changed:
  "resub_resolution decimal s \<noteq> s \<Longrightarrow> \<exists>p t r. s = p @ 95 # t \<and> match_dims decimal t = Some r"
proof (induction s)
  case Nil
  then show ?case by simp
next
  case (Cons c s)
  show ?case
  proof (cases "c = 95 \<and> match_dims decimal s \<noteq> None")
    case True
    then obtain r where "match_dims decimal s = Some r" by blast
    with True have "c # s = [] @ 95 # s \<and> match_dims decimal s = Some r" by simp
    then show ?thesis by blast
  next
    case False
    then have "resub_resolution decimal (c # s) = c # resub_resolution decimal s" by auto
    with Cons.prems have "resub_resolution decimal s \<noteq> s" by simp
    from Cons.IH [OF this] obtain p t r where "s = p @ 95 # t" "match_dims decimal t = Some r"
      by blast
    then have "c # s = (c # p) @ 95 # t \<and> match_dims decimal t = Some r" by simp
    then show ?thesis by blast
  qed
qed

lemma strip_resolution_suffix_split:
  "strip_resolution_suffix decimal url =
     resub_resolution decimal (takeWhile (\<lambda>c. c \<noteq> 63) url) @ dropWhile (\<lambda>c. c \<noteq> 63) url"
proof (cases "dropWhile (\<lambda>c. c \<noteq> 63) url")
  case Nil
  then have tw: "takeWhile (\<lambda>c. c \<noteq> 63) url = url"
    by (metis append_Nil2 takeWhile_dropWhile_id)
  show ?thesis
    unfolding strip_resolution_suffix_def partition_query_def Nil tw by simp
next
  case (Cons c r)
  then show ?thesis by (simp add: strip_resolution_suffix_def partition_query_def)
qed


lemma unicode_decimal_ascii: "\<forall>c<128. unicode_decimal c = (48 \<le> c \<and> c \<le> 57)"
  by (auto simp: unicode_decimal_def decimal_ranges_def)

text \<open>
  Claim C5: a URL whose path ends in a marker \<^verbatim>\<open>_WxH\<close> (2 to 5 digits each) in front
  of the file extension loses exactly that marker, the query string is kept, and every
  other URL is returned unchanged. This holds with the digits, the extension and the end
  read as the pattern \<^verbatim>\<open>_(\d{2,5}x\d{2,5})(?=\.[A-Za-z]+$)\<close> reads them: a digit is any
  decimal digit of Unicode, the extension is made of ASCII letters only, and behind it
  comes the end of the part in front of the first question mark (or a last line feed).
  Then the result is the URL without the marker, for every prefix \<open>p\<close> that has no
  question mark; and a URL that the function changes is of that form. Of the table
  \<open>decimal\<close> the proof uses only that below code point 128 it holds the digits
  \<^verbatim>\<open>0\<close> to \<^verbatim>\<open>9\<close> and nothing else. The code points written as numbers are
  95 \<^verbatim>\<open>_\<close>, 120 \<^verbatim>\<open>x\<close>, 46 \<^verbatim>\<open>.\<close> and 63 \<^verbatim>\<open>?\<close>.
\<close>

theorem strip_resolution_suffix_spec:
  assumes dec: "\<forall>c<128. decimal c = (48 \<le> c \<and> c \<le> 57)"
  shows "((\<forall>c \<in> set W. decimal c) \<and> 2 \<le> length W \<and> length W \<le> 5
      \<and> (\<forall>c \<in> set H. decimal c) \<and> 2 \<le> length H \<and> length H \<le> 5
      \<and> e \<noteq> [] \<and> (\<forall>c \<in> set e. ascii_letter c) \<and> at_dollar nl
      \<and> 63 \<notin> set p \<and> (q = [] \<or> hd q = 63)
    \<longrightarrow> strip_resolution_suffix decimal (p @ [95] @ W @ [120] @ H @ [46] @ e @ nl @ q)
          = p @ [46] @ e @ nl @ q)
   \<and> (strip_resolution_suffix decimal url \<noteq> url
    \<longrightarrow> (\<exists>p W H e nl q. url = p @ [95] @ W @ [120] @ H @ [46] @ e @ nl @ q
          \<and> (\<forall>c \<in> set W. decimal c) \<and> 2 \<le> length W \<and> length W \<le> 5
          \<and> (\<forall>c \<in> set H. decimal c) \<and> 2 \<le> length H \<and> length H \<le> 5
          \<and> e \<noteq> [] \<and> (\<forall>c \<in> set e. ascii_letter c) \<and> at_dollar nl
          \<and> 63 \<notin> set p \<and> (q = [] \<or> hd q = 63)))"
proof (intro conjI impI)
  assume a: "(\<forall>c \<in> set W. decimal c) \<and> 2 \<le> length W \<and> length W \<le> 5
      \<and> (\<forall>c \<in> set H. decimal c) \<and> 2 \<le> length H \<and> length H \<le> 5
      \<and> e \<noteq> [] \<and> (\<forall>c \<in> set e. ascii_letter c) \<and> at_dollar nl
      \<and> 63 \<notin> set p \<and> (q = [] \<or> hd q = 63)"
  let ?r = "46 # e @ nl"
  let ?base = "p @ 95 # W @ 120 # H @ ?r"
  have m: "match_dims decimal (W @ 120 # H @ ?r) = Some ?r"
    using a dec by (intro match_dims_append) blast+
  have "\<not> decimal 63" "\<not> ascii_letter 63"
    using dec by (simp_all add: ascii_letter_def)
  with a have "63 \<notin> set W" "63 \<notin> set H" "63 \<notin> set e" by blast+
  moreover have "63 \<notin> set nl" using a by (auto simp: at_dollar_def)
  ultimately have nq: "\<forall>x \<in> set ?base. x \<noteq> 63" using a by auto
  have q: "q = [] \<or> \<not> hd q \<noteq> 63" using a by simp
  have tw: "takeWhile (\<lambda>c. c \<noteq> 63) (?base @ q) = ?base"
    using nq q by (rule takeWhile_prefix_stop)
  have dw: "dropWhile (\<lambda>c. c \<noteq> 63) (?base @ q) = q"
    using nq q by (rule dropWhile_prefix_stop)
  have "95 \<notin> set ?r"
    using match_dims_no_underscore [OF m dec] by simp
  then have "resub_resolution decimal ?r = ?r" by (rule resub_resolution_plain)
  with m have "resub_resolution decimal ?base = p @ ?r"
    by (simp add: resub_resolution_prefix [OF dec])
  then have "strip_resolution_suffix decimal (?base @ q) = (p @ ?r) @ q"
    unfolding strip_resolution_suffix_split tw dw by simp
  then show "strip_resolution_suffix decimal (p @ [95] @ W @ [120] @ H @ [46] @ e @ nl @ q)
          = p @ [46] @ e @ nl @ q"
    by simp
next
  assume ne: "strip_resolution_suffix decimal url \<noteq> url"
  let ?b = "takeWhile (\<lambda>c. c \<noteq> 63) url"
  let ?q = "dropWhile (\<lambda>c. c \<noteq> 63) url"
  have url: "url = ?b @ ?q" by simp
  have "resub_resolution decimal ?b \<noteq> ?b"
  proof
    assume "resub_resolution decimal ?b = ?b"
    then have "strip_resolution_suffix decimal url = url"
      unfolding strip_resolution_suffix_split by simp
    with ne show False by simp
  qed
  from resub_resolution_changed [OF this] obtain p t r
    where b: "?b = p @ 95 # t" and m: "match_dims decimal t = Some r" by blast
  from match_dims_SomeD [OF m] obtain W H e nl where
    t: "t = W @ 120 # H @ 46 # e @ nl"
    and c: "\<forall>c \<in> set W. decimal c" "2 \<le> length W" "length W \<le> 5"
      "\<forall>c \<in> set H. decimal c" "2 \<le> length H" "length H \<le> 5"
      "e \<noteq> []" "\<forall>c \<in> set e. ascii_letter c" "at_dollar nl"
    by blast
  have "63 \<notin> set ?b" by (auto dest: set_takeWhileD)
  then have p: "63 \<notin> set p" unfolding b by simp
  have q: "?q = [] \<or> hd ?q = 63"
    using hd_dropWhile [of "\<lambda>c. c \<noteq> 63" url] by blast
  have "url = p @ [95] @ W @ [120] @ H @ [46] @ e @ nl @ ?q"
    using url b t by simp
  with c p q show "(\<exists>p W H e nl q. url = p @ [95] @ W @ [120] @ H @ [46] @ e @ nl @ q
          \<and> (\<forall>c \<in> set W. decimal c) \<and> 2 \<le> length W \<and> length W \<le> 5
          \<and> (\<forall>c \<in> set H. decimal c) \<and> 2 \<le> length H \<and> length H \<le> 5
          \<and> e \<noteq> [] \<and> (\<forall>c \<in> set e. ascii_letter c) \<and> at_dollar nl
          \<and> 63 \<notin> set p \<and> (q = [] \<or> hd q = 63))"
    by blast
qed

text \<open>
  The theorem at the table of Unicode 14.0.0 and a marker whose width is written in
  Arabic-Indic digits (code points 1632 to 1641).
\<close>

theorem strip_resolution_suffix_spec_witness:
  "strip_resolution_suffix unicode_decimal
     (code_points ''https://cdn.shop/img/s8-sb30_'' @ [1635, 1637, 1634] @ code_points ''x192.jpg?v=1'')
     = code_points ''https://cdn.shop/img/s8-sb30.jpg?v=1''
   \<and> (\<exists>p W H e nl q.
         code_points ''https://cdn.shop/img/s8-sb30_'' @ [1635, 1637, 1634] @ code_points ''x192.jpg?v=1''
            = p @ [95] @ W @ [120] @ H @ [46] @ e @ nl @ q
          \<and> (\<forall>c \<in> set W. unicode_decimal c) \<and> 2 \<le> length W \<and> length W \<le> 5
          \<and> (\<forall>c \<in> set H. unicode_decimal c) \<and> 2 \<le> length H \<and> length H \<le> 5
          \<and> e \<noteq> [] \<and> (\<forall>c \<in> set e. ascii_letter c) \<and> at_dollar nl
          \<and> 63 \<notin> set p \<and> (q = [] \<or> hd q = 63))"
proof -
  let ?url = "code_points ''https://cdn.shop/img/s8-sb30_'' @ [1635, 1637, 1634]
     @ code_points ''x192.jpg?v=1''"
  note spec = strip_resolution_suffix_spec [OF unicode_decimal_ascii,
      where W = "[1635, 1637, 1634]" and H = "code_points ''192''"
      and e = "code_points ''jpg''" and nl = "[]"
      and p = "code_points ''https://cdn.shop/img/s8-sb30''"
      and q = "code_points ''?v=1''" and url = ?url]
  have prem: "(\<forall>c \<in> set [1635, 1637, 1634]. unicode_decimal c)
      \<and> 2 \<le> length [1635, 1637, 1634 :: nat] \<and> length [1635, 1637, 1634 :: nat] \<le> 5
      \<and> (\<forall>c \<in> set (code_points ''192''). unicode_decimal c)
      \<and> 2 \<le> length (code_points ''192'') \<and> length (code_points ''192'') \<le> 5
      \<and> code_points ''jpg'' \<noteq> [] \<and> (\<forall>c \<in> set (code_points ''jpg''). ascii_letter c)
      \<and> at_dollar []
      \<and> 63 \<notin> set (code_points ''https://cdn.shop/img/s8-sb30'')
      \<and> (code_points ''?v=1'' = [] \<or> hd (code_points ''?v=1'') = 63)"
    by (simp add: code_points_def unicode_decimal_def decimal_ranges_def ascii_letter_def
        at_dollar_def)
  have a: "strip_resolution_suffix unicode_decimal ?url
      = code_points ''https://cdn.shop/img/s8-sb30.jpg?v=1''"
    using spec [THEN conjunct1, THEN mp, OF prem] by (simp add: code_points_def)
  then have "strip_resolution_suffix unicode_decimal ?url \<noteq> ?url"
    by (simp add: code_points_def)
  with spec [THEN conjunct2] a show ?thesis by blast
qed

text \<open>
  As the claim is worded it fails for a path that ends in the marker and an extension
  when a fragment follows, or when the extension holds a digit: the function returns
  both URLs below unchanged.
\<close>

theorem strip_resolution_suffix_keeps_marker:
  "strip_resolution_suffix unicode_decimal
       (code_points ''https://cdn.shop/img/s8-sb30_352x192.jpg#main'')
     = code_points ''https://cdn.shop/img/s8-sb30_352x192.jpg#main''
   \<and> strip_resolution_suffix unicode_decimal
       (code_points ''https://cdn.shop/img/s8-sb30_352x192.jp2'')
     = code_points ''https://cdn.shop/img/s8-sb30_352x192.jp2''"
  by (simp add: strip_resolution_suffix_def partition_query_def match_dims_def digits_2_5_def
      ext_lookahead_def at_dollar_def code_points_def unicode_decimal_def decimal_ranges_def
      ascii_letter_def)

subsection \<open>What the steps of the crawl do to the dictionary\<close>

lemma send_collected [simp]: "collected (snd (send world st who url)) = collected st"
  by (simp add: send_def)

lemma get_soup_collected [simp]: "collected (snd (get_soup world st who url)) = collected st"
  by (simp add: get_soup_def send_def split: sum.splits prod.splits)

lemma parse_collection_page_collected [simp]:
  "collected (snd (parse_collection_page world st url)) = collected st"
proof -
  obtain r st' where g: "get_soup world st Listing url = (r, st')" by (cases "get_soup world st Listing url")
  then have "collected st' = collected st"
    using get_soup_collected [of world st Listing url] by simp
  with g show ?thesis by (simp add: parse_collection_page_def split: option.splits)
qed

lemma parse_product_page_collected [simp]:
  "collected (snd (parse_product_page world st url)) = collected st"
proof -
  obtain r st' where g: "get_soup world st Detail (absolute world url) = (r, st')"
    by (cases "get_soup world st Detail (absolute world url)")
  then have "collected st' = collected st"
    using get_soup_collected [of world st Detail "absolute world url"] by simp
  with g show ?thesis by (simp add: parse_product_page_def split: option.splits)
qed

lemma download_image_collected [simp]:
  "collected (snd (download_image world st url dest)) = collected st"
  by (simp add: download_image_def send_def split: sum.splits prod.splits)

text \<open>The dictionary after one link: unchanged, or one new key, the key of the link.\<close>

lemma process_link_collected:
  "collected (process_link world folder st url) = collected st
   \<or> (dedup_key url \<notin> dom (collected st)
      \<and> (\<exists>product. collected (process_link world folder st url)
            = (collected st)(dedup_key url \<mapsto> product)))"
proof (cases "dedup_key url \<in> dom (collected st)")
  case True
  then show ?thesis by (simp add: process_link_def)
next
  case False
  obtain r st1 where p: "parse_product_page world st url = (r, st1)"
    by (cases "parse_product_page world st url")
  then have c1: "collected st1 = collected st"
    using parse_product_page_collected [of world st url] by simp
  show ?thesis
  proof (cases r)
    case None
    with p False c1 show ?thesis by (simp add: process_link_def)
  next
    case (Some a)
    obtain product img_url where a: "a = (product, img_url)" by (cases a)
    from p Some a False c1
    have "collected (process_link world folder st url) = (collected st)(dedup_key url \<mapsto> product)"
      by (simp add: process_link_def Let_def)
    with False show ?thesis by blast
  qed
qed

lemma process_link_keeps:
  assumes "collected st k = Some p"
  shows "collected (process_link world folder st url) k = Some p"
  using process_link_collected [of world folder st url] assms
  by (auto simp: dom_def)

lemma process_links_keeps:
  "collected st k = Some p \<Longrightarrow> collected (process_links world folder st links) k = Some p"
  unfolding process_links_def
  by (induction links arbitrary: st) (simp_all add: process_link_keeps)

lemma paginate_keeps:
  "collected st k = Some p
   \<Longrightarrow> collected (snd (paginate world folder base seen page st)) k = Some p"
proof (induction world folder base seen page st rule: paginate.induct)
  case (1 world folder base seen page st)
  obtain links st1 where pc: "parse_collection_page world st (page_url base page) = (links, st1)"
    by (cases "parse_collection_page world st (page_url base page)")
  then have c1: "collected st1 = collected st"
    using parse_collection_page_collected [of world st "page_url base page"] by simp
  obtain new seen' where fn: "filter_new world seen links = (new, seen')"
    by (cases "filter_new world seen links")
  show ?case
  proof (cases "page \<le> max_pages \<and> links \<noteq> [] \<and> new \<noteq> []")
    case True
    then have a: "page \<le> max_pages" "links \<noteq> []" "new \<noteq> []" by auto
    have keep: "collected (process_links world folder st1 new) k = Some p"
      using "1.prems" c1 by (simp add: process_links_keeps)
    have "collected (snd (paginate world folder base seen' (page + 1)
        (process_links world folder st1 new))) k = Some p"
      by (rule "1.IH" [OF a(1) pc [symmetric] a(2) fn [symmetric] a(3) keep])
    then show ?thesis
      using a pc fn by (subst paginate.simps) simp
  next
    case False
    then show ?thesis
      using pc fn c1 "1.prems" by (subst paginate.simps) auto
  qed
qed

lemma process_style_keeps:
  "collected st k = Some p \<Longrightarrow> collected (process_style world folder slug st style) k = Some p"
  by (simp add: process_style_def paginate_keeps)

lemma process_styles_keeps:
  "collected st k = Some p
   \<Longrightarrow> collected (foldl (process_style world folder slug) st styles) k = Some p"
  by (induction styles arbitrary: st) (simp_all add: process_style_keeps)

subsection \<open>The example sites, evaluated\<close>

lemma chars_of_code_points: "map char_of (code_points s) = s"
  by (simp add: code_points_def comp_def)

lemma high_res_f3:
  "high_res ''https://cdn.shop/f3_352x192.jpg?v=1'' = ''https://cdn.shop/f3.jpg?v=1''"
proof -
  have "strip_resolution_suffix unicode_decimal
          (code_points ''https://cdn.shop/f3_352x192.jpg?v=1'')
      = code_points ''https://cdn.shop/f3.jpg?v=1''"
    by (simp add: strip_resolution_suffix_def partition_query_def match_dims_def digits_2_5_def
        ext_lookahead_def at_dollar_def code_points_def unicode_decimal_def decimal_ranges_def
        ascii_letter_def)
  then show ?thesis by (simp only: high_res_def chars_of_code_points)
qed

lemma high_res_f6: "high_res ''https://cdn.shop/f6.jpg'' = ''https://cdn.shop/f6.jpg''"
proof -
  have "strip_resolution_suffix unicode_decimal (code_points ''https://cdn.shop/f6.jpg'')
      = code_points ''https://cdn.shop/f6.jpg''"
    by (simp add: strip_resolution_suffix_def partition_query_def code_points_def)
  then show ?thesis by (simp only: high_res_def chars_of_code_points)
qed

lemma image_filename_f3: "image_filename ''https://cdn.shop/f3.jpg?v=1'' = ''f3.jpg''"
proof -
  have s: "sanitize_filename ''https://cdn.shop/f3.jpg?v=1'' = ''f3.jpg''"
    by (simp add: sanitize_filename_def basename_def before_query_def is_safe_def
        is_alpha_def is_digit_def)
  have "resub_resolution unicode_decimal (code_points ''f3.jpg'') = code_points ''f3.jpg''"
    by (simp add: code_points_def)
  then show ?thesis by (simp only: image_filename_def s chars_of_code_points)
qed

lemma image_filename_f6: "image_filename ''https://cdn.shop/f6.jpg'' = ''f6.jpg''"
proof -
  have s: "sanitize_filename ''https://cdn.shop/f6.jpg'' = ''f6.jpg''"
    by (simp add: sanitize_filename_def basename_def before_query_def is_safe_def
        is_alpha_def is_digit_def)
  have "resub_resolution unicode_decimal (code_points ''f6.jpg'') = code_points ''f6.jpg''"
    by (simp add: code_points_def)
  then show ?thesis by (simp only: image_filename_def s chars_of_code_points)
qed

lemma product_page_f3:
  "product_of_page (product_page ''S8/F3'' ''https://cdn.shop/f3_352x192.jpg?v=1'')
   = Some (product_f3, ''https://cdn.shop/f3.jpg?v=1'')"
  by (simp add: product_of_page_def extract_product_def product_page_def blank_page_def
      find_desc_def desc_selectors_def find_image_url_def strip_def is_space_def
      is_alnum_def is_alpha_def is_digit_def parse_price_def high_res_f3 image_filename_f3
      Let_def product_f3_def)

lemma product_page_f6:
  "product_of_page (product_page ''S8/F6'' ''https://cdn.shop/f6.jpg'')
   = Some (product_f6, ''https://cdn.shop/f6.jpg'')"
  by (simp add: product_of_page_def extract_product_def product_page_def blank_page_def
      find_desc_def desc_selectors_def find_image_url_def strip_def is_space_def
      is_alnum_def is_alpha_def is_digit_def parse_price_def high_res_f6 image_filename_f6
      Let_def product_f6_def)

lemma str_nat_2: "str_nat (Suc (Suc 0)) = ''2''"
  by code_simp

lemmas crawl_defs =
  max_pages_def page_url_def parse_collection_page_def get_soup_def send_def
  ok_def not_found_def listing_page_def blank_page_def
  collection_urls_def markup_urls_def selectors_def card_urls_def parse_product_card_def
  strip_def is_space_def absolute_def startswith_def BASE_URL_def
  is_delim_def to_line_end_def at_end_def LF_def
  process_links_def process_link_def parse_product_page_def
  product_page_f3 product_page_f6 product_f3_def product_f6_def
  path_join_def exists_now_def download_image_def Let_def str_nat_2


lemma same_page_s8:
  "process_style same_page ''output/c1'' ''filler''
      \<lparr>collected = Map.empty, requests = [], written = []\<rparr> ''s8''
   = \<lparr>collected = [''https:'' \<mapsto> product_f3],
      requests =
        [(Listing, ''https://www.jkcabinetry.com/collections/s8-filler''),
         (Detail, ''https://www.jkcabinetry.com/products/s8-f3''),
         (Picture, ''https://cdn.shop/f3.jpg?v=1''),
         (Listing, ''https://www.jkcabinetry.com/collections/s8-filler?page=2'')],
      written = []\<rparr>"
  apply (simp add: process_style_def BASE_URL_def)
  apply (subst paginate.simps)
  apply (simp add: same_page_def crawl_defs)
  apply (subst paginate.simps)
  apply (simp add: crawl_defs)
  done

subsection \<open>The first product stored under a key stays\<close>

text \<open>
  Claim C10: a product is put into the dictionary of a category only under a key that
  is absent; a link whose key is present is skipped entirely, without a request; and
  the product bound to a key is still bound to it after every later step of the crawl:
  the next link, the rest of the links of a page, the rest of the pages of a style and
  the rest of the styles.
\<close>

theorem first_writer_wins:
  "(dedup_key full_url \<in> dom (collected st) \<longrightarrow> process_link world folder st full_url = st)
   \<and> (collected (process_link world folder st full_url) \<noteq> collected st \<longrightarrow>
        dedup_key full_url \<notin> dom (collected st)
        \<and> (\<exists>product. collected (process_link world folder st full_url)
              = (collected st)(dedup_key full_url \<mapsto> product)))
   \<and> (collected st k = Some p \<longrightarrow>
        collected (process_link world folder st full_url) k = Some p
        \<and> collected (process_links world folder st links) k = Some p
        \<and> collected (snd (paginate world folder base seen page st)) k = Some p
        \<and> collected (foldl (process_style world folder slug) st styles) k = Some p)"
proof (intro conjI impI)
  assume "dedup_key full_url \<in> dom (collected st)"
  then show "process_link world folder st full_url = st"
    by (simp add: process_link_def)
next
  assume "collected (process_link world folder st full_url) \<noteq> collected st"
  with process_link_collected [of world folder st full_url]
  show "dedup_key full_url \<notin> dom (collected st)"
    and "\<exists>product. collected (process_link world folder st full_url)
           = (collected st)(dedup_key full_url \<mapsto> product)"
    by blast+
next
  assume k: "collected st k = Some p"
  then show "collected (process_link world folder st full_url) k = Some p"
    by (rule process_link_keeps)
  from k show "collected (process_links world folder st links) k = Some p"
    by (rule process_links_keeps)
  from k show "collected (snd (paginate world folder base seen page st)) k = Some p"
    by (rule paginate_keeps)
  from k show "collected (foldl (process_style world folder slug) st styles) k = Some p"
    by (rule process_styles_keeps)
qed

text \<open>
  On the shop \<^const>\<open>same_page\<close>, after style \<^verbatim>\<open>s8\<close>: the link of the second product has
  the key of the first, so it is skipped, and the first product is still there after
  the other styles.
\<close>

theorem first_writer_wins_witness:
  "process_link same_page ''output/c1''
      (process_style same_page ''output/c1'' ''filler''
         \<lparr>collected = Map.empty, requests = [], written = []\<rparr> ''s8'')
      ''https://www.jkcabinetry.com/products/s8-f6''
    = process_style same_page ''output/c1'' ''filler''
         \<lparr>collected = Map.empty, requests = [], written = []\<rparr> ''s8''
   \<and> collected (process_category same_page ''c1'' ''filler'') ''https:'' = Some product_f3"
proof -
  let ?st = "process_style same_page ''output/c1'' ''filler''
         \<lparr>collected = Map.empty, requests = [], written = []\<rparr> ''s8''"
  let ?url = "''https://www.jkcabinetry.com/products/s8-f6''"
  note fw = first_writer_wins [where st = ?st and world = same_page and folder = "''output/c1''"
      and full_url = ?url and k = "''https:''" and p = product_f3 and slug = "''filler''"
      and styles = "tl STYLE_CODES"]
  have key: "dedup_key ?url = ''https:''"
    by (simp add: is_delim_def to_line_end_def at_end_def LF_def)
  have c: "collected ?st ''https:'' = Some product_f3"
    by (simp add: same_page_s8)
  then have "dedup_key ?url \<in> dom (collected ?st)"
    unfolding key by blast
  with fw have 1: "process_link same_page ''output/c1'' ?st ?url = ?st" by blast
  from fw c have "collected (foldl (process_style same_page ''output/c1'' ''filler'') ?st
      (tl STYLE_CODES)) ''https:'' = Some product_f3" by blast
  then have 2: "collected (process_category same_page ''c1'' ''filler'') ''https:''
      = Some product_f3"
    by (simp add: process_category_def STYLE_CODES_def path_join_def startswith_def)
  from 1 2 show ?thesis by blast
qed

subsection \<open>The requests of a crawl and the keys it has seen\<close>

lemma parse_collection_page_requests:
  "requests (snd (parse_collection_page world st url)) = requests st @ [(Listing, url)]"
  by (simp add: parse_collection_page_def get_soup_def send_def
      split: sum.splits prod.splits option.splits)

lemma parse_collection_page_listings [simp]:
  "listings (snd (parse_collection_page world st url)) = listings st + 1"
  by (simp add: listings_def parse_collection_page_requests)

lemma parse_product_page_listings [simp]:
  "listings (snd (parse_product_page world st url)) = listings st"
  by (simp add: listings_def parse_product_page_def get_soup_def send_def
      split: sum.splits prod.splits option.splits)

lemma download_image_listings [simp]:
  "listings (snd (download_image world st url dest)) = listings st"
  by (simp add: listings_def download_image_def send_def split: sum.splits prod.splits)

lemma listings_collected_update [simp]: "listings (st\<lparr>collected := m\<rparr>) = listings st"
  by (simp add: listings_def)

lemma process_link_listings [simp]:
  "listings (process_link world folder st url) = listings st"
proof -
  obtain r st1 where p: "parse_product_page world st url = (r, st1)"
    by (cases "parse_product_page world st url")
  then have "listings st1 = listings st"
    using parse_product_page_listings [of world st url] by simp
  with p show ?thesis
    by (simp add: process_link_def Let_def split: option.splits prod.splits)
qed

lemma process_links_listings [simp]:
  "listings (process_links world folder st links) = listings st"
  unfolding process_links_def by (induction links arbitrary: st) simp_all

lemma paginate_listings:
  "listings (snd (paginate world folder base seen page st)) \<le> listings st + (max_pages + 1 - page)"
proof (induction world folder base seen page st rule: paginate.induct)
  case (1 world folder base seen page st)
  obtain links st1 where pc: "parse_collection_page world st (page_url base page) = (links, st1)"
    by (cases "parse_collection_page world st (page_url base page)")
  then have l1: "listings st1 = listings st + 1"
    using parse_collection_page_listings [of world st "page_url base page"] by simp
  obtain new seen' where fn: "filter_new world seen links = (new, seen')"
    by (cases "filter_new world seen links")
  show ?case
  proof (cases "page \<le> max_pages \<and> links \<noteq> [] \<and> new \<noteq> []")
    case True
    then have a: "page \<le> max_pages" "links \<noteq> []" "new \<noteq> []" by auto
    have "listings (snd (paginate world folder base seen' (page + 1)
        (process_links world folder st1 new)))
      \<le> listings (process_links world folder st1 new) + (max_pages + 1 - (page + 1))"
      by (rule "1.IH" [OF a(1) pc [symmetric] a(2) fn [symmetric] a(3)])
    then show ?thesis
      using a pc fn l1 by (subst paginate.simps) simp
  next
    case False
    then show ?thesis
      using pc fn l1 by (subst paginate.simps) auto
  qed
qed

lemma process_style_listings:
  "listings (process_style world folder slug st style) \<le> listings st + 20"
  using paginate_listings [of world folder _ "{}" 1 st]
  by (simp add: process_style_def max_pages_def)

lemma process_styles_listings:
  "listings (foldl (process_style world folder slug) st styles)
     \<le> listings st + 20 * length styles"
proof (induction styles arbitrary: st)
  case Nil
  show ?case by simp
next
  case (Cons style styles)
  have "listings (foldl (process_style world folder slug)
          (process_style world folder slug st style) styles)
      \<le> listings (process_style world folder slug st style) + 20 * length styles"
    by (rule Cons.IH)
  with process_style_listings [of world folder slug st style] show ?case by simp
qed

lemma filter_new_seen: "seen \<subseteq> snd (filter_new world seen links)"
proof (induction links arbitrary: seen)
  case Nil
  show ?case by simp
next
  case (Cons link links)
  from Cons.IH [of seen] Cons.IH [of "insert (dedup_key (absolute world link)) seen"]
  show ?case by (auto simp: Let_def split: prod.splits)
qed

lemma filter_new_keys:
  "link \<in> set links \<Longrightarrow> dedup_key (absolute world link) \<in> snd (filter_new world seen links)"
proof (induction links arbitrary: seen)
  case Nil
  then show ?case by simp
next
  case (Cons l links)
  let ?k = "dedup_key (absolute world l)"
  show ?case
  proof (cases "link = l")
    case True
    have "?k \<in> snd (filter_new world (insert ?k seen) links)"
      using filter_new_seen [of "insert ?k seen" world links] by blast
    moreover have "?k \<in> seen \<Longrightarrow> ?k \<in> snd (filter_new world seen links)"
      using filter_new_seen [of seen world links] by blast
    ultimately show ?thesis using True by (auto simp: Let_def split: prod.splits)
  next
    case False
    with Cons.prems have "link \<in> set links" by simp
    from Cons.IH [OF this, of seen] Cons.IH [OF this, of "insert ?k seen"]
    show ?thesis by (auto simp: Let_def split: prod.splits)
  qed
qed

lemma filter_new_nothing:
  "\<forall>link \<in> set links. dedup_key (absolute world link) \<in> seen
   \<Longrightarrow> filter_new world seen links = ([], seen)"
  by (induction links) (simp_all add: Let_def)

lemma paginate_seen: "seen \<subseteq> fst (paginate world folder base seen page st)"
proof (induction world folder base seen page st rule: paginate.induct)
  case (1 world folder base seen page st)
  obtain links st1 where pc: "parse_collection_page world st (page_url base page) = (links, st1)"
    by (cases "parse_collection_page world st (page_url base page)")
  obtain new seen' where fn: "filter_new world seen links = (new, seen')"
    by (cases "filter_new world seen links")
  have s: "seen \<subseteq> seen'"
    using filter_new_seen [of seen world links] fn by simp
  show ?case
  proof (cases "page \<le> max_pages \<and> links \<noteq> [] \<and> new \<noteq> []")
    case True
    then have a: "page \<le> max_pages" "links \<noteq> []" "new \<noteq> []" by auto
    have "seen' \<subseteq> fst (paginate world folder base seen' (page + 1)
        (process_links world folder st1 new))"
      by (rule "1.IH" [OF a(1) pc [symmetric] a(2) fn [symmetric] a(3)])
    with s show ?thesis
      using a pc fn by (subst paginate.simps) auto
  next
    case False
    then show ?thesis
      using pc fn s by (subst paginate.simps) auto
  qed
qed

subsection \<open>At most twenty listing pages for a style\<close>

text \<open>
  Claim C9: for every category and style the pagination loop requests at most
  \<^const>\<open>max_pages\<close>, that is 20, listing pages, whatever the site answers. The loop is the
  total function \<^const>\<open>paginate\<close>; started at a page it adds at most
  \<open>max_pages + 1 - page\<close> listing requests, so a style adds at most 20 and the 14 styles
  of a category at most 280.
\<close>

theorem listing_pages_bounded:
  "listings (snd (paginate world folder base seen page st))
     \<le> listings st + (max_pages + 1 - page)
   \<and> listings (process_style world folder slug st style) \<le> listings st + 20
   \<and> listings (process_category world cid slug) \<le> 280"
proof (intro conjI)
  show "listings (snd (paginate world folder base seen page st))
     \<le> listings st + (max_pages + 1 - page)"
    by (rule paginate_listings)
  show "listings (process_style world folder slug st style) \<le> listings st + 20"
    by (rule process_style_listings)
  have "listings (process_category world cid slug)
      \<le> listings \<lparr>collected = Map.empty, requests = [], written = []\<rparr> + 20 * length STYLE_CODES"
    unfolding process_category_def by (rule process_styles_listings)
  then show "listings (process_category world cid slug) \<le> 280"
    by (simp add: listings_def STYLE_CODES_def)
qed

subsection \<open>When the pagination of a style stops\<close>

text \<open>
  Claim C8: the loop over the pages of a style stops at a page without links and at a
  page without a key that is new for the style; so when page \<open>N\<close> and page \<open>N + 1\<close> show
  the same links, the request for page \<open>N + 1\<close> is the last request of the style and
  page \<open>N + 2\<close> is not requested; and the set of seen keys only grows. In the third
  part \<open>st1\<close> is the state after the request for page \<open>N\<close>, \<open>new\<close> are its new links, and
  \<open>st3\<close> is the state after the request for page \<open>N + 1\<close>, which is sent when the new
  links have been processed.
\<close>

theorem pagination_stops:
  "(page \<le> max_pages \<and> parse_collection_page world st (page_url base page) = ([], st1)
      \<longrightarrow> paginate world folder base seen page st = (seen, st1))
   \<and> (page \<le> max_pages \<and> parse_collection_page world st (page_url base page) = (links, st1)
        \<and> links \<noteq> [] \<and> fst (filter_new world seen links) = []
      \<longrightarrow> paginate world folder base seen page st = (snd (filter_new world seen links), st1))
   \<and> (page + 1 \<le> max_pages
        \<and> parse_collection_page world st (page_url base page) = (links, st1) \<and> links \<noteq> []
        \<and> filter_new world seen links = (new, seen') \<and> new \<noteq> []
        \<and> parse_collection_page world (process_links world folder st1 new)
             (page_url base (page + 1)) = (links2, st3)
        \<and> set links2 = set links
      \<longrightarrow> paginate world folder base seen page st = (seen', st3)
          \<and> requests st3 = requests (process_links world folder st1 new)
               @ [(Listing, page_url base (page + 1))])
   \<and> seen \<subseteq> snd (filter_new world seen links)
   \<and> seen \<subseteq> fst (paginate world folder base seen page st)"
proof (intro conjI impI)
  assume "page \<le> max_pages \<and> parse_collection_page world st (page_url base page) = ([], st1)"
  then show "paginate world folder base seen page st = (seen, st1)"
    by (subst paginate.simps) simp
next
  assume a: "page \<le> max_pages
    \<and> parse_collection_page world st (page_url base page) = (links, st1)
    \<and> links \<noteq> [] \<and> fst (filter_new world seen links) = []"
  obtain new seen' where fn: "filter_new world seen links = (new, seen')"
    by (cases "filter_new world seen links")
  with a have "new = []" by simp
  with a fn show "paginate world folder base seen page st = (snd (filter_new world seen links), st1)"
    by (subst paginate.simps) simp
next
  assume a: "page + 1 \<le> max_pages
        \<and> parse_collection_page world st (page_url base page) = (links, st1) \<and> links \<noteq> []
        \<and> filter_new world seen links = (new, seen') \<and> new \<noteq> []
        \<and> parse_collection_page world (process_links world folder st1 new)
             (page_url base (page + 1)) = (links2, st3)
        \<and> set links2 = set links"
  let ?st2 = "process_links world folder st1 new"
  have first: "paginate world folder base seen page st
      = paginate world folder base seen' (page + 1) ?st2"
    using a by (subst paginate.simps) simp
  have "\<forall>link \<in> set links2. dedup_key (absolute world link) \<in> seen'"
  proof
    fix link assume "link \<in> set links2"
    with a have "link \<in> set links" by simp
    from filter_new_keys [OF this, of world seen] a
    show "dedup_key (absolute world link) \<in> seen'" by simp
  qed
  then have none: "filter_new world seen' links2 = ([], seen')"
    by (rule filter_new_nothing)
  from a have "links2 \<noteq> []" by auto
  with a none have "paginate world folder base seen' (page + 1) ?st2 = (seen', st3)"
    by (subst paginate.simps) simp
  with first show "paginate world folder base seen page st = (seen', st3)" by simp
  from a parse_collection_page_requests [of world ?st2 "page_url base (page + 1)"]
  show "requests st3 = requests ?st2 @ [(Listing, page_url base (page + 1))]" by simp
next
  show "seen \<subseteq> snd (filter_new world seen links)" by (rule filter_new_seen)
  show "seen \<subseteq> fst (paginate world folder base seen page st)" by (rule paginate_seen)
qed


text \<open>
  On the shop \<^const>\<open>same_page\<close> the second listing page of style \<^verbatim>\<open>s8\<close> repeats the
  first: the request for it is the last one.
\<close>

theorem pagination_stops_witness:
  "paginate same_page ''output/c1'' ''https://www.jkcabinetry.com/collections/s8-filler'' {} 1
      \<lparr>collected = Map.empty, requests = [], written = []\<rparr>
   = ({''https:''},
      \<lparr>collected = [''https:'' \<mapsto> product_f3],
       requests =
         [(Listing, ''https://www.jkcabinetry.com/collections/s8-filler''),
          (Detail, ''https://www.jkcabinetry.com/products/s8-f3''),
          (Picture, ''https://cdn.shop/f3.jpg?v=1''),
          (Listing, ''https://www.jkcabinetry.com/collections/s8-filler?page=2'')],
       written = []\<rparr>)"
proof -
  let ?base = "''https://www.jkcabinetry.com/collections/s8-filler''"
  let ?st = "\<lparr>collected = Map.empty, requests = [], written = []\<rparr>"
  let ?st1 = "\<lparr>collected = Map.empty, requests = [(Listing, ?base)], written = []\<rparr>"
  let ?links = "[''/products/s8-f3'', ''/products/s8-f6'']"
  let ?new = "[''https://www.jkcabinetry.com/products/s8-f3'']"
  let ?st3 = "\<lparr>collected = [''https:'' \<mapsto> product_f3],
       requests =
         [(Listing, ''https://www.jkcabinetry.com/collections/s8-filler''),
          (Detail, ''https://www.jkcabinetry.com/products/s8-f3''),
          (Picture, ''https://cdn.shop/f3.jpg?v=1''),
          (Listing, ''https://www.jkcabinetry.com/collections/s8-filler?page=2'')],
       written = []\<rparr>"
  have prem: "Suc 0 + 1 \<le> max_pages
        \<and> parse_collection_page same_page ?st (page_url ?base (Suc 0)) = (?links, ?st1)
        \<and> ?links \<noteq> []
        \<and> filter_new same_page {} ?links = (?new, {''https:''}) \<and> ?new \<noteq> []
        \<and> parse_collection_page same_page (process_links same_page ''output/c1'' ?st1 ?new)
             (page_url ?base (Suc 0 + 1)) = (?links, ?st3)
        \<and> set ?links = set ?links"
    by (simp add: same_page_def crawl_defs)
  from pagination_stops [where world = same_page and page = "Suc 0" and base = ?base
      and st = ?st and ?st1.0 = ?st1 and links = ?links and seen = "{}" and new = ?new
      and seen' = "{''https:''}" and folder = "''output/c1''" and ?links2.0 = ?links
      and ?st3.0 = ?st3, THEN conjunct2, THEN conjunct2, THEN conjunct1, THEN mp, OF prem]
  show ?thesis by simp
qed

subsection \<open>The key of a link and the size of the dictionary\<close>











subsection \<open>A failed image download\<close>







subsection \<open>The order of the strategies of \<^verbatim>\<open>parse_collection_page\<close>\<close>

lemma first_cards_first:
  "i < length sels \<Longrightarrow> sel (sels ! i) \<noteq> [] \<Longrightarrow> \<forall>j<i. sel (sels ! j) = []
   \<Longrightarrow> first_cards sel sels = sel (sels ! i)"
proof (induction sels arbitrary: i)
  case Nil
  then show ?case by simp
next
  case (Cons s sels)
  show ?case
  proof (cases i)
    case 0
    with Cons.prems show ?thesis by simp
  next
    case (Suc n)
    with Cons.prems have "sel s = []" by auto
    moreover from Suc Cons.prems have "first_cards sel sels = sel (sels ! n)"
      by (intro Cons.IH) auto
    ultimately show ?thesis using Suc by simp
  qed
qed

lemma first_cards_none: "\<forall>s \<in> set sels. sel s = [] \<Longrightarrow> first_cards sel sels = []"
  by (induction sels) simp_all

lemma collection_urls_markup_free:
  "scripts_urls parse (data_events page) = Inr us \<Longrightarrow> us \<noteq> []
   \<Longrightarrow> collection_urls parse (page\<lparr>select := sel', class_product := elems'\<rparr>) = us"
  by (simp add: collection_urls_def)

text \<open>
  Claim C7: when the first strategy, the JSON of the \<^verbatim>\<open>data-events\<close> scripts, gives at
  least one URL, its URLs are the result, whatever the markup holds; when it gives none
  or raises, the result is that of the markup; there the cards of the first selector of
  the list that selects anything give the links; the anchors in the elements with a
  class of \<^verbatim>\<open>product\<close> are used only when no selector selects anything; and there is a
  result for every page and every answer of the site: the empty list when the page
  could not be fetched.
\<close>

theorem strategies_in_order:
  "(scripts_urls parse (data_events page) = Inr us \<and> us \<noteq> [] \<longrightarrow>
      collection_urls parse page = us
      \<and> collection_urls parse (page\<lparr>select := sel', class_product := elems'\<rparr>) = us)
   \<and> (scripts_urls parse (data_events page) = Inr [] \<or> scripts_urls parse (data_events page) = Inl e
      \<longrightarrow> collection_urls parse page = markup_urls page)
   \<and> (i < length selectors \<and> select page (selectors ! i) \<noteq> []
        \<and> (\<forall>j<i. select page (selectors ! j) = [])
      \<longrightarrow> markup_urls page = card_urls (select page (selectors ! i)))
   \<and> ((\<forall>s \<in> set selectors. select page s = [])
      \<longrightarrow> markup_urls page = generic_urls (class_product page))
   \<and> (fst (get_soup world st Listing url) = None
      \<longrightarrow> fst (parse_collection_page world st url) = [])
   \<and> (fst (get_soup world st Listing url) = Some page
      \<longrightarrow> fst (parse_collection_page world st url) = collection_urls (loads world) page)"
proof (intro conjI impI)
  assume a: "scripts_urls parse (data_events page) = Inr us \<and> us \<noteq> []"
  then show "collection_urls parse page = us"
    by (simp add: collection_urls_def)
  from a show "collection_urls parse (page\<lparr>select := sel', class_product := elems'\<rparr>) = us"
    by (intro collection_urls_markup_free) blast+
next
  assume "scripts_urls parse (data_events page) = Inr []
    \<or> scripts_urls parse (data_events page) = Inl e"
  then show "collection_urls parse page = markup_urls page"
    by (auto simp: collection_urls_def)
next
  assume a: "i < length selectors \<and> select page (selectors ! i) \<noteq> []
        \<and> (\<forall>j<i. select page (selectors ! j) = [])"
  then have "first_cards (select page) selectors = select page (selectors ! i)"
    by (intro first_cards_first) blast+
  with a show "markup_urls page = card_urls (select page (selectors ! i))"
    by (simp add: markup_urls_def)
next
  assume "\<forall>s \<in> set selectors. select page s = []"
  then have "first_cards (select page) selectors = []"
    by (rule first_cards_none)
  then show "markup_urls page = generic_urls (class_product page)"
    by (simp add: markup_urls_def)
next
  assume "fst (get_soup world st Listing url) = None"
  then show "fst (parse_collection_page world st url) = []"
    by (cases "get_soup world st Listing url") (simp add: parse_collection_page_def)
next
  assume "fst (get_soup world st Listing url) = Some page"
  then show "fst (parse_collection_page world st url) = collection_urls (loads world) page"
    by (cases "get_soup world st Listing url") (simp add: parse_collection_page_def)
qed


text \<open>
  A page with a script without events, a script whose JSON names one product, a
  \<^verbatim>\<open>li.grid__item\<close> card and an element with a class of \<^verbatim>\<open>product\<close>: with the JSON
  parsed the result is the URL of the JSON alone, with the JSON malformed it is the link
  of the card, and without the card it is the link of the element.
\<close>

theorem strategies_in_order_witness:
  "collection_urls
      (\<lambda>s. Inr (JList [JList [JStr ''page_viewed'', JDict []],
                        JList [JStr ''collection_viewed'',
                          JDict [(''collection'', JDict [(''productVariants'',
                            JList [JDict [(''product'',
                              JDict [(''url'', JStr '' /products/s8-f3 '')])]])])]]]))
      (blank_page\<lparr>data_events := [[], ''[...]''],
         select := (\<lambda>s. if s = ''li.grid__item''
                         then [\<lparr>anchor_href = Some ''/products/s8-f6''\<rparr>] else []),
         class_product := [\<lparr>anchor_href = Some ''/products/s8-f9''\<rparr>]\<rparr>)
     = [''/products/s8-f3'']
   \<and> collection_urls (\<lambda>s. Inl Exception)
      (blank_page\<lparr>data_events := [[], ''[...]''],
         select := (\<lambda>s. if s = ''li.grid__item''
                         then [\<lparr>anchor_href = Some ''/products/s8-f6''\<rparr>] else []),
         class_product := [\<lparr>anchor_href = Some ''/products/s8-f9''\<rparr>]\<rparr>)
     = [''/products/s8-f6'']
   \<and> collection_urls (\<lambda>s. Inl Exception)
      (blank_page\<lparr>data_events := [[], ''[...]''],
         class_product := [\<lparr>anchor_href = Some ''/products/s8-f9''\<rparr>]\<rparr>)
     = [''/products/s8-f9'']"
proof -
  let ?good = "\<lambda>s :: string. (Inr (JList [JList [JStr ''page_viewed'', JDict []],
                        JList [JStr ''collection_viewed'',
                          JDict [(''collection'', JDict [(''productVariants'',
                            JList [JDict [(''product'',
                              JDict [(''url'', JStr '' /products/s8-f3 '')])]])])]]])
                  :: error + json)"
  let ?bad = "\<lambda>s :: string. (Inl Exception :: error + json)"
  let ?sel = "\<lambda>s. if s = ''li.grid__item''
                         then [\<lparr>anchor_href = Some ''/products/s8-f6''\<rparr>] else []"
  let ?page = "blank_page\<lparr>data_events := [[], ''[...]''], select := ?sel,
         class_product := [\<lparr>anchor_href = Some ''/products/s8-f9''\<rparr>]\<rparr>"
  let ?bare = "blank_page\<lparr>data_events := [[], ''[...]''],
         class_product := [\<lparr>anchor_href = Some ''/products/s8-f9''\<rparr>]\<rparr>"
  have json: "scripts_urls ?good (data_events ?page) = Inr [''/products/s8-f3'']
      \<and> [''/products/s8-f3''] \<noteq> []"
    by (simp add: script_urls_def event_urls_def variant_urls_def strip_def is_space_def)
  have 1: "collection_urls ?good ?page = [''/products/s8-f3'']"
    using strategies_in_order [where parse = ?good and page = ?page
        and us = "[''/products/s8-f3'']", THEN conjunct1, THEN mp, OF json, THEN conjunct1] .
  have raise: "scripts_urls ?bad (data_events ?page) = Inr []
      \<or> scripts_urls ?bad (data_events ?page) = Inl Exception"
    by (simp add: script_urls_def)
  have third: "2 < length selectors \<and> select ?page (selectors ! 2) \<noteq> []
      \<and> (\<forall>j<2. select ?page (selectors ! j) = [])"
    by (simp add: selectors_def less_Suc_eq numeral_2_eq_2)
  have "collection_urls ?bad ?page = markup_urls ?page"
    using strategies_in_order [where parse = ?bad and page = ?page and e = Exception,
        THEN conjunct2, THEN conjunct1, THEN mp, OF raise] .
  also have "\<dots> = card_urls (select ?page (selectors ! 2))"
    using strategies_in_order [where page = ?page and i = 2,
        THEN conjunct2, THEN conjunct2, THEN conjunct1, THEN mp, OF third] .
  also have "\<dots> = [''/products/s8-f6'']"
    by (simp add: selectors_def card_urls_def parse_product_card_def strip_def is_space_def)
  finally have 2: "collection_urls ?bad ?page = [''/products/s8-f6'']" .
  have raise': "scripts_urls ?bad (data_events ?bare) = Inr []
      \<or> scripts_urls ?bad (data_events ?bare) = Inl Exception"
    by (simp add: script_urls_def)
  have none: "\<forall>s \<in> set selectors. select ?bare s = []"
    by (simp add: blank_page_def)
  have "collection_urls ?bad ?bare = markup_urls ?bare"
    using strategies_in_order [where parse = ?bad and page = ?bare and e = Exception,
        THEN conjunct2, THEN conjunct1, THEN mp, OF raise'] .
  also have "\<dots> = generic_urls (class_product ?bare)"
    using strategies_in_order [where page = ?bare,
        THEN conjunct2, THEN conjunct2, THEN conjunct2, THEN conjunct1, THEN mp, OF none] .
  also have "\<dots> = [''/products/s8-f9'']"
    by (simp add: generic_urls_def strip_def is_space_def)
  finally have 3: "collection_urls ?bad ?bare = [''/products/s8-f9'']" .
  from 1 2 3 show ?thesis by blast
qed

subsection \<open>When \<^verbatim>\<open>parse_product_page\<close> gives no result\<close>

lemma extract_product_result:
  assumes "h1_text page = Inr title_elem" and "price_text page = Inr price_elem"
    and "find_desc page = Inr desc" and "find_image_url page = Inr image_url"
  shows "extract_product page =
     (if image_url = [] then Inr None
      else Inr (Some (\<lparr>pid = (case search_id (case title_elem of None \<Rightarrow> [] | Some t \<Rightarrow> t) of
                               None \<Rightarrow> (case title_elem of None \<Rightarrow> [] | Some t \<Rightarrow> t)
                             | Some m \<Rightarrow> m),
                       name = (case title_elem of None \<Rightarrow> [] | Some t \<Rightarrow> t),
                       price = parse_price price_elem, description = desc,
                       image = image_filename (high_res image_url)\<rparr>,
                     high_res image_url)))"
  using assms by (simp add: extract_product_def Let_def)

lemma extract_product_raises:
  "isl (extract_product page) \<longleftrightarrow>
     isl (h1_text page) \<or> isl (price_text page) \<or> isl (find_desc page) \<or> isl (find_image_url page)"
  by (simp add: extract_product_def Let_def split: sum.splits)

lemma product_of_page_none:
  "product_of_page page = None \<longleftrightarrow>
     isl (h1_text page) \<or> isl (price_text page) \<or> isl (find_desc page)
     \<or> isl (find_image_url page) \<or> find_image_url page = Inr []"
  by (simp add: product_of_page_def extract_product_def Let_def split: sum.splits)


text \<open>
  Claim C4: on a fetched page \<^verbatim>\<open>parse_product_page\<close> gives no result only when there is
  no image reference, and an exception at one of the other fields leaves that field at
  its default. In the code one \<^verbatim>\<open>try\<close> stands around the whole extraction, so the
  parse gives no result exactly when a query of the page raises or when the image
  reference is empty; and the image reference is the stripped \<^verbatim>\<open>og:image\<close> content
  whenever that content is not empty, the \<^verbatim>\<open>img\<close> elements being read only otherwise.
  What degrades to a default is a field that is missing: no \<^verbatim>\<open>h1\<close> gives an empty name
  and id, no price element or a price text that \<^verbatim>\<open>float\<close> rejects gives no price.
\<close>

theorem product_page_result:
  "(product_of_page page = None \<longleftrightarrow>
      isl (h1_text page) \<or> isl (price_text page) \<or> isl (find_desc page)
      \<or> isl (find_image_url page) \<or> find_image_url page = Inr [])
   \<and> (og_image page = Inr (Some (c # cs)) \<longrightarrow> find_image_url page = Inr (strip (c # cs)))
   \<and> (og_image page = Inr None \<or> og_image page = Inr (Some []) \<longrightarrow>
        find_image_url page =
          (case img_src page of
             Inl e \<Rightarrow> Inl e
           | Inr None \<Rightarrow> Inr []
           | Inr (Some src) \<Rightarrow> Inr (strip src)))
   \<and> (h1_text page = Inr None \<and> price_text page = Inr price_elem
        \<and> (price_elem = None \<or> (\<exists>t. price_elem = Some t \<and> \<not> float_ok (clean_price t)))
        \<and> find_desc page = Inr desc \<and> find_image_url page = Inr image_url \<and> image_url \<noteq> []
      \<longrightarrow> product_of_page page =
            Some (\<lparr>pid = [], name = [], price = None, description = desc,
                    image = image_filename (high_res image_url)\<rparr>, high_res image_url))
   \<and> (fst (get_soup world st Detail (absolute world url)) = Some page
      \<longrightarrow> fst (parse_product_page world st url) = product_of_page page)"
proof (intro conjI impI)
  show "product_of_page page = None \<longleftrightarrow>
      isl (h1_text page) \<or> isl (price_text page) \<or> isl (find_desc page)
      \<or> isl (find_image_url page) \<or> find_image_url page = Inr []"
    by (rule product_of_page_none)
next
  assume "og_image page = Inr (Some (c # cs))"
  then show "find_image_url page = Inr (strip (c # cs))"
    by (simp add: find_image_url_def)
next
  assume "og_image page = Inr None \<or> og_image page = Inr (Some [])"
  then show "find_image_url page =
          (case img_src page of
             Inl e \<Rightarrow> Inl e
           | Inr None \<Rightarrow> Inr []
           | Inr (Some src) \<Rightarrow> Inr (strip src))"
    by (auto simp: find_image_url_def)
next
  assume a: "h1_text page = Inr None \<and> price_text page = Inr price_elem
        \<and> (price_elem = None \<or> (\<exists>t. price_elem = Some t \<and> \<not> float_ok (clean_price t)))
        \<and> find_desc page = Inr desc \<and> find_image_url page = Inr image_url \<and> image_url \<noteq> []"
  then have "parse_price price_elem = None"
    by (auto simp: parse_price_def Let_def)
  moreover from a have "extract_product page =
      Inr (Some (\<lparr>pid = [], name = [], price = parse_price price_elem, description = desc,
                    image = image_filename (high_res image_url)\<rparr>, high_res image_url))"
    by (simp add: extract_product_result [of page None price_elem desc image_url])
  ultimately show "product_of_page page =
            Some (\<lparr>pid = [], name = [], price = None, description = desc,
                    image = image_filename (high_res image_url)\<rparr>, high_res image_url)"
    by (simp add: product_of_page_def)
next
  assume "fst (get_soup world st Detail (absolute world url)) = Some page"
  then show "fst (parse_product_page world st url) = product_of_page page"
    by (cases "get_soup world st Detail (absolute world url)") (simp add: parse_product_page_def)
qed

text \<open>
  A page without a title, with a price text of two dots and with an image: the result
  has the defaults; and the page is not without a result.
\<close>

theorem product_page_result_witness:
  "product_of_page (blank_page\<lparr>price_text := Inr (Some ''$1.2.3''),
       og_image := Inr (Some ''https://cdn.shop/f6.jpg'')\<rparr>)
     = Some (\<lparr>pid = [], name = [], price = None, description = [], image = ''f6.jpg''\<rparr>,
             ''https://cdn.shop/f6.jpg'')
   \<and> product_of_page (blank_page\<lparr>price_text := Inr (Some ''$1.2.3''),
       og_image := Inr (Some ''https://cdn.shop/f6.jpg'')\<rparr>) \<noteq> None"
proof -
  let ?page = "blank_page\<lparr>price_text := Inr (Some ''$1.2.3''),
       og_image := Inr (Some ''https://cdn.shop/f6.jpg'')\<rparr>"
  note pr = product_page_result [where page = ?page and c = "CHR ''h''"
      and cs = "''ttps://cdn.shop/f6.jpg''" and price_elem = "Some ''$1.2.3''" and desc = "[]"
      and image_url = "''https://cdn.shop/f6.jpg''"]
  have og: "og_image ?page = Inr (Some (CHR ''h'' # ''ttps://cdn.shop/f6.jpg''))"
    by simp
  have img: "find_image_url ?page = Inr ''https://cdn.shop/f6.jpg''"
    using pr [THEN conjunct2, THEN conjunct1, THEN mp, OF og]
    by (simp add: strip_def is_space_def)
  have prem: "h1_text ?page = Inr None \<and> price_text ?page = Inr (Some ''$1.2.3'')
        \<and> (Some ''$1.2.3'' = None
            \<or> (\<exists>t. Some ''$1.2.3'' = Some t \<and> \<not> float_ok (clean_price t)))
        \<and> find_desc ?page = Inr [] \<and> find_image_url ?page = Inr ''https://cdn.shop/f6.jpg''
        \<and> ''https://cdn.shop/f6.jpg'' \<noteq> []"
    using img
    by (simp add: blank_page_def find_desc_def desc_selectors_def float_ok_def clean_price_def
        is_digit_def)
  have 1: "product_of_page ?page
     = Some (\<lparr>pid = [], name = [], price = None, description = [], image = ''f6.jpg''\<rparr>,
             ''https://cdn.shop/f6.jpg'')"
    using pr [THEN conjunct2, THEN conjunct2, THEN conjunct2, THEN conjunct1, THEN mp, OF prem]
    by (simp add: high_res_f6 image_filename_f6)
  then have "product_of_page ?page \<noteq> None" by simp
  with 1 show ?thesis by blast
qed

text \<open>
  As the claim is worded it fails twice. A page whose \<^verbatim>\<open>og:image\<close> content is blank
  gives no result although an \<^verbatim>\<open>img\<close> with a \<^verbatim>\<open>src\<close> is there; and a page on which the
  query for the title raises gives no result although it has an image.
\<close>

theorem product_page_no_result:
  "product_of_page (blank_page\<lparr>h1_text := Inr (Some ''S8/F6''), og_image := Inr (Some ''  ''),
       img_src := Inr (Some ''https://cdn.shop/f6.jpg'')\<rparr>) = None
   \<and> product_of_page (blank_page\<lparr>h1_text := Inl Exception,
       og_image := Inr (Some ''https://cdn.shop/f6.jpg'')\<rparr>) = None"
  by (simp add: product_of_page_def extract_product_def blank_page_def find_desc_def
      desc_selectors_def find_image_url_def strip_def is_space_def)

end
